theory Spec2Isabelle
  imports Main "HOL-Library.Sublist"
begin

section \<open>JavaScript values of the stub\<close>

text \<open>
  The stub (\<^verbatim>\<open>packages/resources/lambda/stub/index.js\<close>) relays a Lambda invocation over a
  WebSocket and rebuilds the error of the remote side. Two kinds of JavaScript data occur.

  Values the code only \<^emph>\<open>reads\<close> (the argument of \<^verbatim>\<open>destroyCircular\<close>) live in a store:
  an object has an identity, and a property may refer back to any object, so the graph
  may be cyclic. Values the code \<^emph>\<open>builds\<close> (\<^verbatim>\<open>{}\<close>, \<^verbatim>\<open>[]\<close>, \<^verbatim>\<open>new Error()\<close>, and what
  \<^verbatim>\<open>JSON.parse\<close> returns) are fresh objects that nothing else refers to: they are trees.

  Objects are bags of data properties. Getters, proxies, symbol keys and the
  \<^verbatim>\<open>__proto__\<close> setter of \<^verbatim>\<open>Object.prototype\<close> are outside the model; \<open>plain_keys\<close> in the
  section on the codec names the one restriction this puts on the keys of an input.
\<close>

datatype 'a jsval =
    VUndefined
  | VNull
  | VBool bool
  | VNum int
  | VStr string
  | VFunction
  | VObject 'a

text \<open>
  An object of the store. \<open>own\<close> lists the own data properties in the order
  \<^verbatim>\<open>Object.entries\<close> enumerates them, each with its value and its enumerable flag.
  \<open>inherited\<close> is the prototype chain as far as the code reads it: for a property found
  on the chain, its value when that is a string, and \<open>None\<close> when it is anything else
  (the code only asks \<^verbatim>\<open>typeof from[property] === "string"\<close>).
\<close>

record 'a jobj =
  isArray :: bool
  isError :: bool
  own :: "(string \<times> 'a jsval \<times> bool) list"
  inherited :: "(string \<times> string option) list"

type_synonym 'a heap = "('a \<times> 'a jobj) list"

text \<open>Fresh values: the three ways the code creates an object.\<close>

datatype okind = PlainK | ArrayK | ErrorK

datatype tval =
    TUndefined
  | TNull
  | TBool bool
  | TNum int
  | TStr string
  | TObj tobj
and tobj = TObject okind "(string \<times> tval \<times> bool) list"

fun t_kind :: "tobj \<Rightarrow> okind" where
  "t_kind (TObject k ps) = k"

fun t_own :: "tobj \<Rightarrow> (string \<times> tval \<times> bool) list" where
  "t_own (TObject k ps) = ps"

text \<open>Own-property lookup by key, first match.\<close>

fun own_lookup :: "(string \<times> 'v \<times> bool) list \<Rightarrow> string \<Rightarrow> 'v option" where
  "own_lookup [] k = None"
| "own_lookup ((k', v, e) # ps) k = (if k' = k then Some v else own_lookup ps k)"

text \<open>
  What the built-in prototypes contribute to the four properties the code reads:
  \<^verbatim>\<open>Error.prototype\<close> has \<^verbatim>\<open>name = "Error"\<close> and \<^verbatim>\<open>message = ""\<close>; \<^verbatim>\<open>Object.prototype\<close> and
  \<^verbatim>\<open>Array.prototype\<close> have none of name, message, stack, code.
\<close>

fun builtin_inherited :: "okind \<Rightarrow> (string \<times> string option) list" where
  "builtin_inherited ErrorK = [(''name'', Some ''Error''), (''message'', Some '''')]"
| "builtin_inherited PlainK = []"
| "builtin_inherited ArrayK = []"

text \<open>\<^verbatim>\<open>from[property]\<close> when it is a string: the own property wins over the chain.\<close>

definition string_prop :: "'a jobj \<Rightarrow> string \<Rightarrow> string option" where
  "string_prop fo p =
     (case own_lookup (own fo) p of
        Some v \<Rightarrow> (case v of VStr s \<Rightarrow> Some s | _ \<Rightarrow> None)
      | None \<Rightarrow> (case map_of (inherited fo) p of Some r \<Rightarrow> r | None \<Rightarrow> None))"

text \<open>\<^verbatim>\<open>t[p]\<close> on a fresh object: own property, else the built-in prototype.\<close>

definition tget :: "tobj \<Rightarrow> string \<Rightarrow> tval" where
  "tget t p =
     (case own_lookup (t_own t) p of
        Some v \<Rightarrow> v
      | None \<Rightarrow> (case map_of (builtin_inherited (t_kind t)) p of
                  Some (Some s) \<Rightarrow> TStr s
                | _ \<Rightarrow> TUndefined))"

text \<open>
  \<^verbatim>\<open>to[key] = value\<close> on a fresh object: an existing own property keeps its place and its
  flags and takes the value; otherwise a new enumerable property is added last. Two
  things JavaScript does differently are not modelled: for the key \<^verbatim>\<open>__proto__\<close> it calls
  the setter of the prototype and adds no own property, and it lists integer-like keys
  before the others. No statement below reads the order of the keys, and the statement
  on the codec excludes the key \<^verbatim>\<open>__proto__\<close> from its input (\<open>plain_keys\<close>).
\<close>

fun assign_own :: "(string \<times> tval \<times> bool) list \<Rightarrow> string \<Rightarrow> tval \<Rightarrow> (string \<times> tval \<times> bool) list" where
  "assign_own [] k v = [(k, v, True)]"
| "assign_own ((k', v', e') # ps) k v =
     (if k' = k then (k', v, e') # ps else (k', v', e') # assign_own ps k v)"

fun set_prop :: "tobj \<Rightarrow> string \<Rightarrow> tval \<Rightarrow> tobj" where
  "set_prop (TObject kd ps) k v = TObject kd (assign_own ps k v)"

text \<open>
  \<^verbatim>\<open>Object.defineProperty(to, property, {value, enumerable, configurable: true,
  writable: true})\<close>: the property takes the value and the flag, in place when it exists.
\<close>

fun define_own :: "(string \<times> tval \<times> bool) list \<Rightarrow> string \<Rightarrow> tval \<Rightarrow> bool \<Rightarrow> (string \<times> tval \<times> bool) list" where
  "define_own [] k v e = [(k, v, e)]"
| "define_own ((k', v', e') # ps) k v e =
     (if k' = k then (k', v, e) # ps else (k', v', e') # define_own ps k v e)"

fun define_prop :: "tobj \<Rightarrow> string \<Rightarrow> tval \<Rightarrow> bool \<Rightarrow> tobj" where
  "define_prop (TObject kd ps) k v e = TObject kd (define_own ps k v e)"

section \<open>The error codec\<close>

text \<open>\<^verbatim>\<open>commonProperties\<close>, lines 247-252.\<close>

definition commonProperties :: "(string \<times> bool) list" where
  "commonProperties =
     [(''name'', False), (''message'', False), (''stack'', False), (''code'', True)]"

text \<open>A primitive of the store as a fresh value (copied as it is).\<close>

fun prim_of :: "'a jsval \<Rightarrow> tval" where
  "prim_of VUndefined = TUndefined"
| "prim_of VNull = TNull"
| "prim_of (VBool b) = TBool b"
| "prim_of (VNum n) = TNum n"
| "prim_of (VStr s) = TStr s"
| "prim_of VFunction = TUndefined"
| "prim_of (VObject a) = TUndefined"

text \<open>\<^verbatim>\<open>to_ || (Array.isArray(from) ? [] : {})\<close>, line 255.\<close>

definition new_target :: "tobj option \<Rightarrow> bool \<Rightarrow> tobj" where
  "new_target to_opt arr =
     (case to_opt of
        Some t \<Rightarrow> t
      | None \<Rightarrow> if arr then TObject ArrayK [] else TObject PlainK [])"

text \<open>The second loop of \<^verbatim>\<open>destroyCircular\<close>, lines 281-290.\<close>

definition attach_common :: "'a jobj \<Rightarrow> bool \<Rightarrow> tobj \<Rightarrow> tobj" where
  "attach_common fo forceEnumerable t0 =
     fold (\<lambda>(property, enumerable) t.
             case string_prop fo property of
               Some s \<Rightarrow> define_prop t property (TStr s) (if forceEnumerable then True else enumerable)
             | None \<Rightarrow> t)
          commonProperties t0"

text \<open>
  \<^verbatim>\<open>destroyCircular\<close>, lines 254-293. \<open>seen\<close> is the list of objects on the current path;
  the function pushes \<open>from\<close> on its own copy and hands a copy to each recursive call.
  A property whose value is a function is skipped, a primitive is copied, an object
  not on the path is copied recursively, and an object on the path becomes the string
  \<^verbatim>\<open>"[Circular]"\<close>. A reference to an address the store does not hold cannot occur in
  JavaScript; the model then returns the target as it stands.
\<close>

function destroyCircular :: "'a heap \<Rightarrow> 'a \<Rightarrow> 'a list \<Rightarrow> tobj option \<Rightarrow> bool \<Rightarrow> tobj" where
  "destroyCircular h from seen to_opt forceEnumerable =
     (case map_of h from of
        None \<Rightarrow> new_target to_opt False
      | Some fo \<Rightarrow>
          attach_common fo forceEnumerable
            (fold (\<lambda>(key, value, enumerable) t.
                     if \<not> enumerable then t
                     else (case value of
                             VFunction \<Rightarrow> t
                           | VObject a \<Rightarrow>
                               if a \<notin> set (seen @ [from])
                               then set_prop t key
                                      (TObj (destroyCircular h a (seen @ [from]) None forceEnumerable))
                               else set_prop t key (TStr ''[Circular]'')
                           | _ \<Rightarrow> set_prop t key (prim_of value)))
                  (own fo) (new_target to_opt (isArray fo))))"
  by pat_completeness auto
termination
proof (relation "measure (\<lambda>(h, from, seen, to_opt, fe).
          if from \<in> dom (map_of h) then Suc (card (dom (map_of h) - set seen - {from})) else 0)",
       goal_cases)
  case 1
  show ?case by simp
next
  case (2 h "from" seen to_opt fe fo x t xa y xb ya a)
  have fin: "finite (dom (map_of h) - set seen - {from})"
    by (simp add: finite_dom_map_of)
  from 2 have inh: "from \<in> dom (map_of h)" by auto
  from 2 have notin: "a \<notin> set seen" "a \<noteq> from" by auto
  show ?case
  proof (cases "a \<in> dom (map_of h)")
    case True
    with notin have "a \<in> dom (map_of h) - set seen - {from}" by simp
    with fin have "card (dom (map_of h) - set seen - {from} - {a}) < card (dom (map_of h) - set seen - {from})"
      by (meson card_Diff1_less)
    moreover have "dom (map_of h) - set (seen @ [from]) - {a} = dom (map_of h) - set seen - {from} - {a}"
      by auto
    ultimately show ?thesis using True inh by simp
  next
    case False
    with inh show ?thesis by simp
  qed
qed

declare destroyCircular.simps [simp del]

text \<open>
  A fresh value laid out as a store, so that the same \<open>destroyCircular\<close> can read it: the
  object at position \<open>i\<close> of the own properties of the object at path \<open>p\<close> has the address
  \<open>p @ [i]\<close>. Distinct objects of a tree have distinct paths.
\<close>

fun jsval_of :: "nat list \<Rightarrow> tval \<Rightarrow> nat list jsval" where
  "jsval_of p TUndefined = VUndefined"
| "jsval_of p TNull = VNull"
| "jsval_of p (TBool b) = VBool b"
| "jsval_of p (TNum n) = VNum n"
| "jsval_of p (TStr s) = VStr s"
| "jsval_of p (TObj t) = VObject p"

fun own_at :: "nat list \<Rightarrow> nat \<Rightarrow> (string \<times> tval \<times> bool) list \<Rightarrow> (string \<times> nat list jsval \<times> bool) list" where
  "own_at p i [] = []"
| "own_at p i ((k, v, e) # ps) = (k, jsval_of (p @ [i]) v, e) # own_at p (Suc i) ps"

definition jobj_at :: "nat list \<Rightarrow> tobj \<Rightarrow> nat list jobj" where
  "jobj_at p t =
     \<lparr> isArray = (t_kind t = ArrayK), isError = (t_kind t = ErrorK),
       own = own_at p 0 (t_own t), inherited = builtin_inherited (t_kind t) \<rparr>"

fun heap_of :: "nat list \<Rightarrow> tobj \<Rightarrow> nat list heap"
  and heap_of_props :: "nat list \<Rightarrow> nat \<Rightarrow> (string \<times> tval \<times> bool) list \<Rightarrow> nat list heap" where
  "heap_of p (TObject kd ps) = (p, jobj_at p (TObject kd ps)) # heap_of_props p 0 ps"
| "heap_of_props p i [] = []"
| "heap_of_props p i ((k, v, e) # ps) =
     (case v of TObj t \<Rightarrow> heap_of (p @ [i]) t | _ \<Rightarrow> []) @ heap_of_props p (Suc i) ps"

definition heap_of_val :: "tval \<Rightarrow> nat list heap" where
  "heap_of_val v = (case v of TObj t \<Rightarrow> heap_of [] t | _ \<Rightarrow> [])"

text \<open>
  \<^verbatim>\<open>deserializeError\<close>, lines 295-307. An instance of \<^verbatim>\<open>Error\<close> is returned as it is; any
  other object that is not an array is overlaid on a \<^verbatim>\<open>new Error()\<close>, whose one own
  property is the non-enumerable \<^verbatim>\<open>stack\<close> (the string \<open>stk\<close>, which the engine
  chooses); everything else is returned as it is.
\<close>

datatype 'a decoded = Unchanged "'a jsval" | Rebuilt tobj

definition newError :: "string \<Rightarrow> tobj" where
  "newError stk = TObject ErrorK [(''stack'', TStr stk, False)]"

definition deserializeError :: "string \<Rightarrow> 'a heap \<Rightarrow> 'a jsval \<Rightarrow> 'a decoded" where
  "deserializeError stk h v =
     (case v of
        VObject a \<Rightarrow>
          (case map_of h a of
             None \<Rightarrow> Unchanged v
           | Some fo \<Rightarrow>
               if isError fo then Unchanged v
               else if \<not> isArray fo
                 then Rebuilt (destroyCircular h a [] (Some (newError stk)) False)
                 else Unchanged v)
      | _ \<Rightarrow> Unchanged v)"

text \<open>\<^verbatim>\<open>deserializeError\<close> on a fresh value, as \<^verbatim>\<open>receiveMessage\<close> calls it on parsed JSON.\<close>

definition deserialize_tval :: "string \<Rightarrow> tval \<Rightarrow> tval" where
  "deserialize_tval stk v =
     (case deserializeError stk (heap_of_val v) (jsval_of [] v) of
        Unchanged u \<Rightarrow> v
      | Rebuilt t \<Rightarrow> TObj t)"

text \<open>
  Modelled from the spec: \<^verbatim>\<open>encode\<close> (the \<^verbatim>\<open>serializeError\<close> of the remote side) is not in
  this file; only \<^verbatim>\<open>destroyCircular\<close>, which it shares with \<^verbatim>\<open>deserializeError\<close>, is. By
  section 4.4 of the specification it walks the error's graph depth-first from an
  empty path into a new plain structure and then attaches name, message, stack and
  code. Whether it forces them enumerable is left as the parameter \<open>forceEnumerable\<close>.
\<close>

definition encode :: "bool \<Rightarrow> 'a heap \<Rightarrow> 'a \<Rightarrow> tobj" where
  "encode forceEnumerable h e = destroyCircular h e [] None forceEnumerable"

text \<open>\<^verbatim>\<open>decode(encode(e))\<close>, with nothing between the two (no JSON on a wire).\<close>

definition decode_encode :: "string \<Rightarrow> bool \<Rightarrow> 'a heap \<Rightarrow> 'a \<Rightarrow> nat list decoded" where
  "decode_encode stk forceEnumerable h e =
     deserializeError stk (heap_of [] (encode forceEnumerable h e)) (VObject [])"

subsection \<open>Reading the codec's input and output\<close>

text \<open>
  The first loop of \<^verbatim>\<open>destroyCircular\<close> by itself (lines 259-279): what one property
  contributes, and the loop over the properties. \<open>destroyCircular_unfold\<close> below shows
  that the function is the second loop after this one.
\<close>

definition entry_value :: "'a heap \<Rightarrow> 'a list \<Rightarrow> bool \<Rightarrow> 'a jsval \<Rightarrow> tval option" where
  "entry_value h path fe v =
     (case v of
        VFunction \<Rightarrow> None
      | VObject a \<Rightarrow>
          Some (if a \<notin> set path then TObj (destroyCircular h a path None fe)
                else TStr ''[Circular]'')
      | _ \<Rightarrow> Some (prim_of v))"

definition copy_entries :: "'a heap \<Rightarrow> 'a list \<Rightarrow> bool \<Rightarrow> (string \<times> 'a jsval \<times> bool) list \<Rightarrow> tobj \<Rightarrow> tobj" where
  "copy_entries h path fe ps t0 =
     fold (\<lambda>(key, v, enumerable) t.
             if \<not> enumerable then t
             else (case entry_value h path fe v of None \<Rightarrow> t | Some u \<Rightarrow> set_prop t key u))
          ps t0"

text \<open>An own property by key, with its enumerable flag.\<close>

fun entry_of :: "(string \<times> 'v \<times> bool) list \<Rightarrow> string \<Rightarrow> ('v \<times> bool) option" where
  "entry_of [] k = None"
| "entry_of ((k', v, e) # ps) k = (if k' = k then Some (v, e) else entry_of ps k)"

text \<open>
  The keys of an input object are distinct, as in every JavaScript object, and none is
  \<^verbatim>\<open>__proto__\<close> (assigning to that key calls a setter, which the model does not have).
\<close>

definition plain_keys :: "'a heap \<Rightarrow> bool" where
  "plain_keys h =
     list_all (\<lambda>(a, fo). distinct (map fst (own fo)) \<and> ''__proto__'' \<notin> set (map fst (own fo))) h"

text \<open>
  \<open>back_ref h path a ks\<close>: from the object \<open>a\<close>, whose ancestors are \<open>path\<close>, the keys \<open>ks\<close>
  lead through enumerable own properties, each to an object not yet on the path, and the
  last of them to an object that is on the path: a back-reference to an ancestor.
\<close>

fun back_ref :: "'a heap \<Rightarrow> 'a list \<Rightarrow> 'a \<Rightarrow> string list \<Rightarrow> bool" where
  "back_ref h path a [] = False"
| "back_ref h path a (k # ks) =
     (case map_of h a of
        None \<Rightarrow> False
      | Some fo \<Rightarrow>
          (case entry_of (own fo) k of
             Some (VObject b, True) \<Rightarrow>
               if b \<in> set (path @ [a]) then ks = [] else back_ref h (path @ [a]) b ks
           | _ \<Rightarrow> False))"

text \<open>\<^verbatim>\<open>v.k1.k2...\<close> through own properties of fresh values.\<close>

fun tfollow :: "tval \<Rightarrow> string list \<Rightarrow> tval" where
  "tfollow v [] = v"
| "tfollow v (k # ks) =
     (case v of
        TObj t \<Rightarrow> (case own_lookup (t_own t) k of Some u \<Rightarrow> tfollow u ks | None \<Rightarrow> TUndefined)
      | _ \<Rightarrow> TUndefined)"

text \<open>
  \<open>tleaf t ks s\<close>: in the fresh object \<open>t\<close> the keys \<open>ks\<close> lead through enumerable own
  properties of objects with distinct keys to the string \<open>s\<close>.
\<close>

fun tleaf :: "tobj \<Rightarrow> string list \<Rightarrow> string \<Rightarrow> bool" where
  "tleaf t [] s = False"
| "tleaf t (k # ks) s =
     (distinct (map fst (t_own t)) \<and>
      (case entry_of (t_own t) k of
         Some (TStr s', True) \<Rightarrow> ks = [] \<and> s' = s
       | Some (TObj t', True) \<Rightarrow> tleaf t' ks s
       | _ \<Rightarrow> False))"

text \<open>The subtree at a path of positions.\<close>

fun tsub :: "tobj \<Rightarrow> nat list \<Rightarrow> tobj option" where
  "tsub t [] = Some t"
| "tsub t (i # q) =
     (if i < length (t_own t)
      then (case fst (snd (t_own t ! i)) of TObj t' \<Rightarrow> tsub t' q | _ \<Rightarrow> None)
      else None)"

text \<open>The string a value is, if it is one.\<close>

fun str_of_jsval :: "'a jsval \<Rightarrow> string option" where
  "str_of_jsval (VStr s) = Some s"
| "str_of_jsval v = None"

fun str_of_tval :: "tval \<Rightarrow> string option" where
  "str_of_tval (TStr s) = Some s"
| "str_of_tval v = None"

text \<open>
  An error whose graph has cycles: it refers to itself, and to an object that refers
  back to it and to itself. Its message and stack are own and not enumerable, its name
  comes from \<^verbatim>\<open>Error.prototype\<close>, its code is an own enumerable string.
\<close>

definition cyclic_error :: "nat heap" where
  "cyclic_error =
     [(0, \<lparr> isArray = False, isError = True,
            own = [(''stack'', VStr ''Error: boom at handler'', False),
                   (''message'', VStr ''boom'', False),
                   (''code'', VStr ''E1'', True),
                   (''self'', VObject 0, True),
                   (''inner'', VObject 1, True),
                   (''retry'', VFunction, True)],
            inherited = [(''name'', Some ''Error''), (''message'', Some '''')] \<rparr>),
      (1, \<lparr> isArray = False, isError = False,
            own = [(''up'', VObject 0, True), (''me'', VObject 1, True), (''n'', VNum 3, True)],
            inherited = [] \<rparr>)]"

section \<open>The relay\<close>

text \<open>
  \<^verbatim>\<open>_ref\<close> (lines 11-15 and 23-27) is the state of the module; it outlives an invocation.
  \<^verbatim>\<open>_ref.ws\<close> is \<^verbatim>\<open>null\<close> at first, \<^verbatim>\<open>undefined\<close> after line 75, and a socket otherwise.
\<close>

datatype ws_ref = WsNull | WsUndefined | WsObject nat

text \<open>The event handed to \<^verbatim>\<open>ws.onerror\<close>, as far as line 70-71 read it.\<close>

record error_event =
  ev_type :: string
  ev_message :: string

record lambda_context =
  awsRequestId :: string
  functionName :: string
  memoryLimitInMB :: string

text \<open>What \<^verbatim>\<open>sendMessage\<close> serialises, lines 119-134, and the keep-alive of line 140.\<close>

record request =
  rq_action :: string
  rq_debugRequestId :: tval
  rq_debugRequestTimeoutInMs :: int
  rq_debugSrcPath :: "string option"
  rq_debugSrcHandler :: "string option"
  rq_event :: tval
  rq_context :: lambda_context
  rq_env :: "(string \<times> string) list"

datatype frame = Request request | KeepAlive

text \<open>
  What the stub does to the world around it: the calls on the transport library, on the
  timers and on the completion callback, in the order they happen. What the library does
  with a call (it refuses to send on a socket that is not open, or to connect to an
  endpoint that is not a URL) is not part of the stub and not of the model.
\<close>

datatype effect =
    NewWebSocket nat
  | Send nat frame
  | CloseSocket nat
  | SetTimeout nat nat
  | ClearTimeout nat
  | Callback nat tval tval

text \<open>
  A handler slot of a socket holds nothing, the closure that \<^verbatim>\<open>connectAndSendMessage\<close>
  assigns to it (lines 49-89), or the logging closure that \<^verbatim>\<open>disconnect\<close> assigns to it
  (lines 94-108).
\<close>

datatype slot = Unset | Current | OldConnection

record socket =
  onopen :: slot
  onclose :: slot
  onmessage :: slot
  onerror :: slot

datatype js_exn = TypeError | SyntaxError | Error string | Thrown tval

text \<open>
  The fields of \<^verbatim>\<open>_ref\<close>, then the runtime around it: the environment of the process, the
  sockets created so far with their handler slots, the timers that are armed, and the
  trace of effects. \<open>ctx\<close> is \<^verbatim>\<open>_ref.context\<close>.
\<close>

record state =
  ws :: ws_ref
  wsConnectedAt :: int
  wsLastConnectError :: "error_event option"
  event :: tval
  ctx :: "lambda_context option"
  callback :: "nat option"
  keepAliveTimer :: "nat option"
  debugRequestId :: tval
  process_env :: "(string \<times> string) list"
  sockets :: "nat \<Rightarrow> socket option"
  next_socket :: nat
  armed :: "nat list"
  next_timer :: nat
  trace :: "effect list"

definition init :: "(string \<times> string) list \<Rightarrow> state" where
  "init env =
     \<lparr> ws = WsNull, wsConnectedAt = 0, wsLastConnectError = None, event = TUndefined,
       ctx = None, callback = None, keepAliveTimer = None, debugRequestId = TUndefined,
       process_env = env, sockets = (\<lambda>w. None), next_socket = 0, armed = [],
       next_timer = 0, trace = [] \<rparr>"

definition CONNECTION_LIFESPAN :: int where
  "CONNECTION_LIFESPAN = 1800000"

text \<open>The decimal form of a number in a template literal (line 27).\<close>

definition digit_char :: "nat \<Rightarrow> char" where
  "digit_char d = ''0123456789'' ! d"

fun show_nat :: "nat \<Rightarrow> string" where
  "show_nat n =
     (if n < 10 then [digit_char n] else show_nat (n div 10) @ [digit_char (n mod 10)])"

declare show_nat.simps [simp del]

definition show_int :: "int \<Rightarrow> string" where
  "show_int i = (if i < 0 then ''-'' @ show_nat (nat (- i)) else show_nat (nat i))"

text \<open>\<^verbatim>\<open>constructEnvs\<close>, lines 191-239.\<close>

definition excluded_envs :: "string list" where
  "excluded_envs =
     [''SST_DEBUG_ENDPOINT'', ''SST_DEBUG_SRC_HANDLER'', ''SST_DEBUG_SRC_PATH'',
      ''AWS_LAMBDA_FUNCTION_MEMORY_SIZE'', ''AWS_LAMBDA_LOG_GROUP_NAME'',
      ''AWS_LAMBDA_LOG_STREAM_NAME'', ''LD_LIBRARY_PATH'', ''LAMBDA_TASK_ROOT'',
      ''AWS_LAMBDA_RUNTIME_API'', ''AWS_EXECUTION_ENV'', ''AWS_XRAY_DAEMON_ADDRESS'',
      ''AWS_LAMBDA_INITIALIZATION_TYPE'', ''PATH'', ''PWD'', ''LAMBDA_RUNTIME_DIR'',
      ''LANG'', ''NODE_PATH'', ''TZ'', ''SHLVL'', ''_AWS_XRAY_DAEMON_ADDRESS'',
      ''_AWS_XRAY_DAEMON_PORT'', ''AWS_XRAY_CONTEXT_MISSING'', ''_HANDLER'',
      ''_X_AMZN_TRACE_ID'']"

definition constructEnvs :: "(string \<times> string) list \<Rightarrow> (string \<times> string) list" where
  "constructEnvs env = filter (\<lambda>(key, v). key \<notin> set excluded_envs) env"

text \<open>\<^verbatim>\<open>clearTimeout\<close> and \<^verbatim>\<open>setTimeout\<close> of the runtime.\<close>

definition clearTimeout :: "nat \<Rightarrow> state \<Rightarrow> state" where
  "clearTimeout t s = s\<lparr> armed := removeAll t (armed s), trace := trace s @ [ClearTimeout t] \<rparr>"

definition setTimeout :: "nat \<Rightarrow> state \<Rightarrow> state" where
  "setTimeout delay s =
     s\<lparr> keepAliveTimer := Some (next_timer s), armed := next_timer s # armed s,
        next_timer := Suc (next_timer s),
        trace := trace s @ [SetTimeout (next_timer s) delay] \<rparr>"

text \<open>
  The "stop timer" step that the close handler (lines 62-66) and \<^verbatim>\<open>receiveMessage\<close>
  (lines 168-175) share: the stored timer is cleared; \<^verbatim>\<open>_ref.keepAliveTimer\<close> keeps
  its value.
\<close>

definition stop_timer :: "state \<Rightarrow> state" where
  "stop_timer s = (case keepAliveTimer s of Some t \<Rightarrow> clearTimeout t s | None \<Rightarrow> s)"

text \<open>
  \<^verbatim>\<open>sendMessage\<close>, lines 112-143. \<open>remaining\<close> is what \<^verbatim>\<open>context.getRemainingTimeInMillis()\<close>
  returns at that moment. \<^verbatim>\<open>_ref.ws.send\<close> on \<^verbatim>\<open>null\<close> or \<^verbatim>\<open>undefined\<close> is a TypeError, and so is
  a call on an undefined context.
\<close>

definition lambdaRequest :: "int \<Rightarrow> lambda_context \<Rightarrow> state \<Rightarrow> request" where
  "lambdaRequest remaining c s =
     \<lparr> rq_action = ''stub.lambdaRequest'',
       rq_debugRequestId = debugRequestId s,
       rq_debugRequestTimeoutInMs = remaining,
       rq_debugSrcPath = map_of (process_env s) ''SST_DEBUG_SRC_PATH'',
       rq_debugSrcHandler = map_of (process_env s) ''SST_DEBUG_SRC_HANDLER'',
       rq_event = event s,
       rq_context = c,
       rq_env = constructEnvs (process_env s) \<rparr>"

definition sendMessage :: "int \<Rightarrow> state \<Rightarrow> state \<times> js_exn option" where
  "sendMessage remaining s =
     (case ws s of
        WsObject w \<Rightarrow>
          (case ctx s of
             None \<Rightarrow> (s, Some TypeError)
           | Some c \<Rightarrow>
               (setTimeout 540000
                  (s\<lparr> trace := trace s @ [Send w (Request (lambdaRequest remaining c s))] \<rparr>),
                None))
      | _ \<Rightarrow> (s, Some TypeError))"

text \<open>
  \<^verbatim>\<open>connectAndSendMessage\<close>, lines 43-90, up to the assignment of the four handlers; \<open>now\<close>
  is what \<^verbatim>\<open>Date.now()\<close> returns on line 46. The handlers run later, as events.
\<close>

definition connectAndSendMessage :: "int \<Rightarrow> state \<Rightarrow> state" where
  "connectAndSendMessage now s =
     s\<lparr> ws := WsObject (next_socket s),
        wsConnectedAt := now,
        wsLastConnectError := None,
        sockets := (sockets s)(next_socket s \<mapsto>
                      \<lparr> onopen = Current, onclose = Current, onmessage = Current, onerror = Current \<rparr>),
        next_socket := Suc (next_socket s),
        trace := trace s @ [NewWebSocket (next_socket s)] \<rparr>"

text \<open>\<^verbatim>\<open>disconnect\<close>, lines 92-110.\<close>

definition disconnect :: "state \<Rightarrow> state \<times> js_exn option" where
  "disconnect s =
     (case ws s of
        WsObject w \<Rightarrow>
          (s\<lparr> sockets := (sockets s)(w \<mapsto>
                  \<lparr> onopen = OldConnection, onclose = OldConnection,
                    onmessage = OldConnection, onerror = OldConnection \<rparr>),
               trace := trace s @ [CloseSocket w] \<rparr>, None)
      | _ \<Rightarrow> (s, Some TypeError))"

text \<open>
  \<^verbatim>\<open>exports.main\<close>, lines 20-41. \<open>t_id\<close>, \<open>t_check\<close> and \<open>t_open\<close> are the readings of
  \<^verbatim>\<open>Date.now()\<close> on lines 27, 34 and 46. Line 21 sets a flag of the host's context that
  the stub never reads; it is left out.
\<close>

definition main :: "tval \<Rightarrow> lambda_context \<Rightarrow> nat \<Rightarrow> int \<Rightarrow> int \<Rightarrow> int \<Rightarrow> int \<Rightarrow> state \<Rightarrow> state \<times> js_exn option" where
  "main ev c cb t_id t_check t_open remaining s =
     (let s1 = s\<lparr> event := ev, ctx := Some c, callback := Some cb, keepAliveTimer := None,
                  debugRequestId := TStr (awsRequestId c @ ''-'' @ show_int t_id) \<rparr>
      in case ws s1 of
           WsObject w \<Rightarrow>
             if t_check - wsConnectedAt s1 \<ge> CONNECTION_LIFESPAN
             then (case disconnect s1 of
                     (s2, Some x) \<Rightarrow> (s2, Some x)
                   | (s2, None) \<Rightarrow> (connectAndSendMessage t_open s2, None))
             else sendMessage remaining s1
         | _ \<Rightarrow> (connectAndSendMessage t_open s1, None))"

text \<open>
  The handler of \<^verbatim>\<open>ws.onclose\<close>, lines 54-79. Reading \<^verbatim>\<open>.type\<close> of a \<^verbatim>\<open>null\<close>
  \<^verbatim>\<open>_ref.wsLastConnectError\<close> is a TypeError.
\<close>

definition unresolvable :: "error_event \<Rightarrow> bool" where
  "unresolvable e = (ev_type e = ''error'' \<and> prefix ''getaddrinfo ENOTFOUND'' (ev_message e))"

definition ws_onclose :: "int \<Rightarrow> state \<Rightarrow> state \<times> js_exn option" where
  "ws_onclose now s =
     (let s1 = stop_timer s
      in case wsLastConnectError s1 of
           None \<Rightarrow> (s1, Some TypeError)
         | Some e \<Rightarrow>
             if unresolvable e then (s1\<lparr> ws := WsUndefined \<rparr>, None)
             else (connectAndSendMessage now s1, None))"

text \<open>The handler of \<^verbatim>\<open>ws.onerror\<close>, lines 86-89.\<close>

definition ws_onerror :: "error_event \<Rightarrow> state \<Rightarrow> state" where
  "ws_onerror e s = s\<lparr> wsLastConnectError := Some e \<rparr>"

text \<open>
  \<^verbatim>\<open>receiveMessage\<close>, lines 145-184. \<^verbatim>\<open>JSON.parse\<close> is the library's: the model takes its
  result, a syntax error or a fresh value. Destructuring \<^verbatim>\<open>null\<close> (or \<^verbatim>\<open>undefined\<close>, which
  \<^verbatim>\<open>JSON.parse\<close> never returns) is a TypeError; a primitive has none of the four fields.
\<close>

datatype parsed = Unparsable | Parsed tval

definition field :: "tval \<Rightarrow> string \<Rightarrow> tval" where
  "field v k = (case v of TObj t \<Rightarrow> tget t k | _ \<Rightarrow> TUndefined)"

text \<open>\<^verbatim>\<open>a === b\<close> where \<open>b\<close> is a primitive: a fresh object is identical to nothing else.\<close>

definition strict_eq :: "tval \<Rightarrow> tval \<Rightarrow> bool" where
  "strict_eq a b = (case a of TObj t \<Rightarrow> False | _ \<Rightarrow> a = b)"

fun truthy :: "tval \<Rightarrow> bool" where
  "truthy TUndefined = False"
| "truthy TNull = False"
| "truthy (TBool b) = b"
| "truthy (TNum n) = (n \<noteq> 0)"
| "truthy (TStr s) = (s \<noteq> [])"
| "truthy (TObj t) = True"

definition receiveMessage :: "string \<Rightarrow> parsed \<Rightarrow> state \<Rightarrow> state \<times> js_exn option" where
  "receiveMessage stk d s =
     (case d of
        Unparsable \<Rightarrow> (s, Some SyntaxError)
      | Parsed v \<Rightarrow>
          if v = TNull \<or> v = TUndefined then (s, Some TypeError)
          else if strict_eq (field v ''action'') (TStr ''server.failedToSendRequestDueToClientNotConnected'')
          then (s, Some (Error ''Debug client not connected.''))
          else if strict_eq (field v ''action'') (TStr ''server.failedToSendRequestDueToUnknown'')
          then (s, Some (Error ''Failed to send request to debug client.''))
          else if \<not> strict_eq (field v ''action'') (TStr ''client.lambdaResponse'')
                  \<or> \<not> strict_eq (field v ''debugRequestId'') (debugRequestId s)
          then (s, None)
          else
            (let s1 = stop_timer s
             in if truthy (field v ''responseError'')
                then (s1, Some (Thrown (deserialize_tval stk (field v ''responseError''))))
                else (case callback s1 of
                        None \<Rightarrow> (s1, Some TypeError)
                      | Some cb \<Rightarrow>
                          (s1\<lparr> trace := trace s1 @ [Callback cb TNull (field v ''responseData'')] \<rparr>,
                           None))))"

text \<open>
  The callback of the keep-alive timer, lines 139-142. The runtime fires a timer at
  most once, and never one that was cleared.
\<close>

definition keepAlive :: "state \<Rightarrow> state \<times> js_exn option" where
  "keepAlive s =
     (case ws s of
        WsObject w \<Rightarrow> (s\<lparr> trace := trace s @ [Send w KeepAlive] \<rparr>, None)
      | _ \<Rightarrow> (s, Some TypeError))"

text \<open>
  What can happen to the process: an invocation (with the event, the context, the
  completion callback, the three clock readings of \<open>main\<close> and the remaining time), an
  event of a socket (routed to the handler its slot holds; an open carries the remaining
  time that \<open>sendMessage\<close> reads, a close the clock reading of a reconnect, a message the
  stack of a \<^verbatim>\<open>new Error()\<close> and the parsed data), and a timer that fires.
\<close>

datatype happening =
    Invoke tval lambda_context nat int int int int
  | SocketOpen nat int
  | SocketClose nat int
  | SocketMessage nat string parsed
  | SocketError nat error_event
  | TimerFires nat

definition slot_of :: "state \<Rightarrow> nat \<Rightarrow> (socket \<Rightarrow> slot) \<Rightarrow> slot" where
  "slot_of s w sel = (case sockets s w of None \<Rightarrow> Unset | Some k \<Rightarrow> sel k)"

fun step :: "happening \<Rightarrow> state \<Rightarrow> state \<times> js_exn option" where
  "step (Invoke ev c cb t_id t_check t_open remaining) s =
     main ev c cb t_id t_check t_open remaining s"
| "step (SocketOpen w remaining) s =
     (if slot_of s w onopen = Current then sendMessage remaining s else (s, None))"
| "step (SocketClose w now) s =
     (if slot_of s w onclose = Current then ws_onclose now s else (s, None))"
| "step (SocketMessage w stk d) s =
     (if slot_of s w onmessage = Current then receiveMessage stk d s else (s, None))"
| "step (SocketError w e) s =
     (if slot_of s w onerror = Current then (ws_onerror e s, None) else (s, None))"
| "step (TimerFires t) s =
     (if t \<in> set (armed s) then keepAlive (s\<lparr> armed := removeAll t (armed s) \<rparr>) else (s, None))"

text \<open>
  A run of the process: an exception that no handler catches ends it, so the run stops
  there and keeps the exception.
\<close>

fun run :: "happening list \<Rightarrow> state \<Rightarrow> state \<times> js_exn option" where
  "run [] s = (s, None)"
| "run (x # xs) s =
     (case step x s of
        (s', Some ex) \<Rightarrow> (s', Some ex)
      | (s', None) \<Rightarrow> run xs s')"

text \<open>Reading a trace: the connections opened, the requests sent, the completions.\<close>

fun is_connect :: "effect \<Rightarrow> bool" where
  "is_connect (NewWebSocket w) = True"
| "is_connect x = False"

fun is_send :: "effect \<Rightarrow> bool" where
  "is_send (Send w f) = True"
| "is_send x = False"

fun is_callback :: "effect \<Rightarrow> bool" where
  "is_callback (Callback cb e d) = True"
| "is_callback x = False"

fun is_close :: "effect \<Rightarrow> bool" where
  "is_close (CloseSocket w) = True"
| "is_close x = False"

definition connects :: "effect list \<Rightarrow> nat" where
  "connects tr = length (filter is_connect tr)"

text \<open>
  Two kinds of runs. A happening is \<open>calm\<close> for a connection opened at \<open>t0\<close> when it is
  an invocation checked less than the lifespan after \<open>t0\<close>, or any event but a close.
  A happening is \<open>quiet\<close> when it is neither a new invocation nor an error event.
\<close>

fun calm :: "int \<Rightarrow> happening \<Rightarrow> bool" where
  "calm t0 (Invoke ev c cb t_id t_check t_open remaining) = (t_check - t0 < 1800000)"
| "calm t0 (SocketClose w now) = False"
| "calm t0 x = True"

fun quiet :: "happening \<Rightarrow> bool" where
  "quiet (Invoke ev c cb t_id t_check t_open remaining) = False"
| "quiet (SocketError w e) = False"
| "quiet x = True"

fun is_invoke :: "happening \<Rightarrow> bool" where
  "is_invoke (Invoke ev c cb t_id t_check t_open remaining) = True"
| "is_invoke x = False"

text \<open>
  The scenarios of section 8 of the specification: a fresh process is invoked with the
  payload \<^verbatim>\<open>{x: 1}\<close> at time 1000 and its socket opens; the remote side answers request
  \<^verbatim>\<open>r1-1000\<close> with \<^verbatim>\<open>{y: 2}\<close>, or reports that the client is not connected.
\<close>

definition payload_x1 :: tval where
  "payload_x1 = TObj (TObject PlainK [(''x'', TNum 1, True)])"

definition context_r1 :: lambda_context where
  "context_r1 = \<lparr> awsRequestId = ''r1'', functionName = ''handler'', memoryLimitInMB = ''128'' \<rparr>"

definition scenario_A :: "happening list" where
  "scenario_A = [Invoke payload_x1 context_r1 7 1000 1000 1000 30000, SocketOpen 0 29990]"

definition response_r1 :: tval where
  "response_r1 = TObj (TObject PlainK
     [(''action'', TStr ''client.lambdaResponse'', True),
      (''debugRequestId'', TStr ''r1-1000'', True),
      (''responseData'', TObj (TObject PlainK [(''y'', TNum 2, True)]), True)])"

definition not_connected :: tval where
  "not_connected = TObj (TObject PlainK
     [(''action'', TStr ''server.failedToSendRequestDueToClientNotConnected'', True)])"

definition unknown_failure :: tval where
  "unknown_failure = TObj (TObject PlainK
     [(''action'', TStr ''server.failedToSendRequestDueToUnknown'', True)])"

definition response_error_r1 :: tval where
  "response_error_r1 = TObj (TObject PlainK
     [(''action'', TStr ''client.lambdaResponse'', True),
      (''debugRequestId'', TStr ''r1-1000'', True),
      (''responseError'', TObj (TObject PlainK
          [(''name'', TStr ''RangeError'', True), (''message'', TStr ''boom'', True),
           (''stack'', TStr ''RangeError: boom at handler'', True),
           (''detail'', TObj (TObject PlainK [(''n'', TNum 3, True)]), True)]), True)])"

definition econnreset :: error_event where
  "econnreset = \<lparr> ev_type = ''error'', ev_message = ''ECONNRESET'' \<rparr>"

definition enotfound :: error_event where
  "enotfound = \<lparr> ev_type = ''error'', ev_message = ''getaddrinfo ENOTFOUND host'' \<rparr>"

text \<open>A response to another request, \<^verbatim>\<open>r0-5\<close>, while \<^verbatim>\<open>r1-1000\<close> is pending.\<close>

definition response_r0 :: tval where
  "response_r0 = TObj (TObject PlainK
     [(''action'', TStr ''client.lambdaResponse'', True),
      (''debugRequestId'', TStr ''r0-5'', True),
      (''responseData'', TNum 0, True)])"

section \<open>Properties of the relay\<close>

lemmas relay_defs = init_def main_def connectAndSendMessage_def disconnect_def sendMessage_def
  setTimeout_def clearTimeout_def stop_timer_def slot_of_def ws_onclose_def ws_onerror_def
  receiveMessage_def keepAlive_def lambdaRequest_def CONNECTION_LIFESPAN_def show_int_def
  show_nat.simps digit_char_def field_def tget_def unresolvable_def

lemmas scenario_defs = scenario_A_def payload_x1_def context_r1_def response_r1_def
  response_r0_def response_error_r1_def not_connected_def unknown_failure_def econnreset_def
  enotfound_def

lemma strict_eq_str [simp]: "strict_eq x (TStr a) = (x = TStr a)"
  by (cases x) (auto simp: strict_eq_def)

lemma stop_timer_fields [simp]:
  "ws (stop_timer s) = ws s"
  "wsConnectedAt (stop_timer s) = wsConnectedAt s"
  "wsLastConnectError (stop_timer s) = wsLastConnectError s"
  "event (stop_timer s) = event s"
  "ctx (stop_timer s) = ctx s"
  "callback (stop_timer s) = callback s"
  "keepAliveTimer (stop_timer s) = keepAliveTimer s"
  "debugRequestId (stop_timer s) = debugRequestId s"
  "process_env (stop_timer s) = process_env s"
  "sockets (stop_timer s) = sockets s"
  "next_socket (stop_timer s) = next_socket s"
  "next_timer (stop_timer s) = next_timer s"
  by (simp_all add: stop_timer_def clearTimeout_def split: option.split)

lemma stop_timer_trace:
  "trace (stop_timer s) =
     trace s @ (case keepAliveTimer s of Some t \<Rightarrow> [ClearTimeout t] | None \<Rightarrow> [])"
  by (simp add: stop_timer_def clearTimeout_def split: option.split)

lemma stop_timer_armed:
  "armed (stop_timer s) =
     (case keepAliveTimer s of Some t \<Rightarrow> removeAll t (armed s) | None \<Rightarrow> armed s)"
  by (simp add: stop_timer_def clearTimeout_def split: option.split)

lemma connects_append [simp]: "connects (xs @ ys) = connects xs + connects ys"
  by (simp add: connects_def)

lemma connects_stop_timer [simp]: "connects (trace (stop_timer s)) = connects (trace s)"
  by (simp add: stop_timer_trace connects_def split: option.split)

lemma sends_stop_timer [simp]:
  "filter is_send (trace (stop_timer s)) = filter is_send (trace s)"
  by (simp add: stop_timer_trace split: option.split)

text \<open>What each handler leaves alone.\<close>

lemma sendMessage_frame:
  "ws (fst (sendMessage r s)) = ws s \<and> wsConnectedAt (fst (sendMessage r s)) = wsConnectedAt s
   \<and> wsLastConnectError (fst (sendMessage r s)) = wsLastConnectError s
   \<and> debugRequestId (fst (sendMessage r s)) = debugRequestId s
   \<and> event (fst (sendMessage r s)) = event s
   \<and> next_socket (fst (sendMessage r s)) = next_socket s
   \<and> connects (trace (fst (sendMessage r s))) = connects (trace s)
   \<and> filter is_close (trace (fst (sendMessage r s))) = filter is_close (trace s)"
  by (simp add: sendMessage_def setTimeout_def connects_def split: ws_ref.split option.split)

lemma receiveMessage_frame:
  "ws (fst (receiveMessage stk d s)) = ws s
   \<and> wsConnectedAt (fst (receiveMessage stk d s)) = wsConnectedAt s
   \<and> wsLastConnectError (fst (receiveMessage stk d s)) = wsLastConnectError s
   \<and> debugRequestId (fst (receiveMessage stk d s)) = debugRequestId s
   \<and> event (fst (receiveMessage stk d s)) = event s
   \<and> next_socket (fst (receiveMessage stk d s)) = next_socket s
   \<and> connects (trace (fst (receiveMessage stk d s))) = connects (trace s)
   \<and> filter is_send (trace (fst (receiveMessage stk d s))) = filter is_send (trace s)
   \<and> filter is_close (trace (fst (receiveMessage stk d s))) = filter is_close (trace s)"
  by (simp add: receiveMessage_def Let_def stop_timer_trace connects_def
        split: parsed.split option.split)

lemma keepAlive_frame:
  "ws (fst (keepAlive s)) = ws s \<and> wsConnectedAt (fst (keepAlive s)) = wsConnectedAt s
   \<and> wsLastConnectError (fst (keepAlive s)) = wsLastConnectError s
   \<and> debugRequestId (fst (keepAlive s)) = debugRequestId s
   \<and> event (fst (keepAlive s)) = event s
   \<and> next_socket (fst (keepAlive s)) = next_socket s
   \<and> connects (trace (fst (keepAlive s))) = connects (trace s)
   \<and> filter is_close (trace (fst (keepAlive s))) = filter is_close (trace s)"
  by (simp add: keepAlive_def connects_def split: ws_ref.split)

lemma ws_onclose_frame:
  "debugRequestId (fst (ws_onclose now s)) = debugRequestId s
   \<and> event (fst (ws_onclose now s)) = event s"
  by (simp add: ws_onclose_def Let_def connectAndSendMessage_def split: option.split)

lemma main_within:
  "ws s = WsObject w \<Longrightarrow> t_check - wsConnectedAt s < 1800000 \<Longrightarrow>
   main ev c cb t_id t_check t_open remaining s =
     sendMessage remaining
       (s\<lparr> event := ev, ctx := Some c, callback := Some cb, keepAliveTimer := None,
           debugRequestId := TStr (awsRequestId c @ ''-'' @ show_int t_id) \<rparr>)"
  by (simp add: main_def CONNECTION_LIFESPAN_def)

lemma calm_step:
  assumes "ws s = WsObject w" and "calm (wsConnectedAt s) x"
  shows "ws (fst (step x s)) = WsObject w \<and> wsConnectedAt (fst (step x s)) = wsConnectedAt s
       \<and> connects (trace (fst (step x s))) = connects (trace s)
       \<and> filter is_close (trace (fst (step x s))) = filter is_close (trace s)"
proof (cases x)
  case (Invoke ev c cb t_id t_check t_open remaining)
  with assms show ?thesis by (simp add: main_within sendMessage_frame)
next
  case (SocketOpen w' r)
  with assms show ?thesis by (simp add: sendMessage_frame)
next
  case (SocketClose w' t)
  with assms show ?thesis by simp
next
  case (SocketMessage w' stk d)
  with assms show ?thesis by (simp add: receiveMessage_frame)
next
  case (SocketError w' e)
  with assms show ?thesis by (simp add: ws_onerror_def)
next
  case (TimerFires t)
  with assms show ?thesis by (simp add: keepAlive_frame)
qed

lemma calm_run:
  assumes "ws s = WsObject w" and "\<forall>x\<in>set xs. calm (wsConnectedAt s) x"
  shows "ws (fst (run xs s)) = WsObject w \<and> wsConnectedAt (fst (run xs s)) = wsConnectedAt s
       \<and> connects (trace (fst (run xs s))) = connects (trace s)
       \<and> filter is_close (trace (fst (run xs s))) = filter is_close (trace s)"
  using assms
proof (induction xs arbitrary: s)
  case Nil
  then show ?case by simp
next
  case (Cons x xs)
  obtain s1 r where st: "step x s = (s1, r)" by (cases "step x s")
  from Cons.prems have cx: "calm (wsConnectedAt s) x" by simp
  from calm_step[OF Cons.prems(1) cx] st
  have s1: "ws s1 = WsObject w" "wsConnectedAt s1 = wsConnectedAt s"
    "connects (trace s1) = connects (trace s)"
    "filter is_close (trace s1) = filter is_close (trace s)" by simp_all
  show ?case
  proof (cases r)
    case None
    from Cons.prems s1 have "\<forall>x\<in>set xs. calm (wsConnectedAt s1) x" by simp
    from Cons.IH[OF s1(1) this] s1 st None show ?thesis by simp
  next
    case (Some ex)
    with st s1 show ?thesis by simp
  qed
qed

lemma quiet_step:
  assumes "ws s = WsUndefined" and "wsLastConnectError s = Some e" and "unresolvable e"
    and "quiet x"
  shows "ws (fst (step x s)) = WsUndefined \<and> wsLastConnectError (fst (step x s)) = Some e
       \<and> connects (trace (fst (step x s))) = connects (trace s)
       \<and> filter is_send (trace (fst (step x s))) = filter is_send (trace s)"
proof (cases x)
  case (Invoke ev c cb t_id t_check t_open remaining)
  with assms show ?thesis by simp
next
  case (SocketOpen w' r)
  with assms show ?thesis by (simp add: sendMessage_def)
next
  case (SocketClose w' t)
  with assms show ?thesis by (simp add: ws_onclose_def Let_def)
next
  case (SocketMessage w' stk d)
  with assms show ?thesis by (simp add: receiveMessage_frame)
next
  case (SocketError w' e')
  with assms show ?thesis by simp
next
  case (TimerFires t)
  with assms show ?thesis by (simp add: keepAlive_def)
qed

lemma quiet_run:
  assumes "ws s = WsUndefined" and "wsLastConnectError s = Some e" and "unresolvable e"
    and "\<forall>x\<in>set xs. quiet x"
  shows "ws (fst (run xs s)) = WsUndefined
       \<and> connects (trace (fst (run xs s))) = connects (trace s)
       \<and> filter is_send (trace (fst (run xs s))) = filter is_send (trace s)"
  using assms
proof (induction xs arbitrary: s)
  case Nil
  then show ?case by simp
next
  case (Cons x xs)
  obtain s1 r where st: "step x s = (s1, r)" by (cases "step x s")
  from Cons.prems have qx: "quiet x" by simp
  from quiet_step[OF Cons.prems(1) Cons.prems(2) Cons.prems(3) qx] st
  have s1: "ws s1 = WsUndefined" "wsLastConnectError s1 = Some e"
    "connects (trace s1) = connects (trace s)"
    "filter is_send (trace s1) = filter is_send (trace s)" by simp_all
  show ?case
  proof (cases r)
    case None
    from Cons.prems have "\<forall>x\<in>set xs. quiet x" by simp
    from Cons.IH[OF s1(1) s1(2) Cons.prems(3) this] s1 st None show ?thesis by simp
  next
    case (Some ex)
    with st s1 show ?thesis by simp
  qed
qed

text \<open>
  The correlation id and the payload are written by \<^verbatim>\<open>main\<close> alone: no handler and no
  reconnect changes them.
\<close>

lemma request_id_step:
  "\<not> is_invoke x \<Longrightarrow>
   debugRequestId (fst (step x s)) = debugRequestId s \<and> event (fst (step x s)) = event s"
  by (cases x)
     (simp_all add: sendMessage_frame ws_onclose_frame receiveMessage_frame keepAlive_frame
        ws_onerror_def)

lemma request_id_run:
  "\<forall>x\<in>set xs. \<not> is_invoke x \<Longrightarrow>
   debugRequestId (fst (run xs s)) = debugRequestId s \<and> event (fst (run xs s)) = event s"
proof (induction xs arbitrary: s)
  case Nil
  then show ?case by simp
next
  case (Cons x xs)
  obtain s1 r where st: "step x s = (s1, r)" by (cases "step x s")
  from Cons.prems have "\<not> is_invoke x" by simp
  from request_id_step[OF this, of s] st
  have s1: "debugRequestId s1 = debugRequestId s" "event s1 = event s" by simp_all
  from Cons.prems have "\<forall>x\<in>set xs. \<not> is_invoke x" by simp
  from Cons.IH[OF this, of s1] s1 st show ?case by (cases r) simp_all
qed

text \<open>
  A close after a recorded error that is not an ENOTFOUND one (scenario D): one new
  socket, and when it opens the request goes out again with the id and the payload
  that \<^verbatim>\<open>_ref\<close> holds.
\<close>

lemma recorded_transient_close_reconnects:
  assumes "slot_of s w onclose = Current" and "wsLastConnectError s = Some e"
    and "\<not> unresolvable e" and "ctx s = Some c"
  shows "\<exists>s'. step (SocketClose w now) s = (s', None)
      \<and> trace s' = trace (stop_timer s) @ [NewWebSocket (next_socket s)]
      \<and> ws s' = WsObject (next_socket s)
      \<and> wsLastConnectError s' = None
      \<and> (\<exists>s''. step (SocketOpen (next_socket s) r) s' = (s'', None)
            \<and> trace s'' = trace s' @ [Send (next_socket s) (Request (lambdaRequest r c s')),
                                       SetTimeout (next_timer s) 540000]
            \<and> rq_debugRequestId (lambdaRequest r c s') = debugRequestId s
            \<and> rq_event (lambdaRequest r c s') = event s)"
  using assms
  by (simp add: ws_onclose_def Let_def connectAndSendMessage_def slot_of_def sendMessage_def
        setTimeout_def lambdaRequest_def)

text \<open>
  A close with no error stored, in any state: the handler stops the timer and throws;
  it opens no socket and leaves \<^verbatim>\<open>_ref.ws\<close> as it is. A new socket always starts with no
  error stored (line 47), and only an error event stores one.
\<close>

lemma close_without_error_throws:
  assumes "slot_of s w onclose = Current" and "wsLastConnectError s = None"
  shows "step (SocketClose w now) s = (stop_timer s, Some TypeError)"
  using assms by (simp add: ws_onclose_def Let_def)

lemma new_socket_has_no_error:
  "wsLastConnectError (connectAndSendMessage now s) = None"
  by (simp add: connectAndSendMessage_def)

text \<open>
  \<^verbatim>\<open>_ref.ws\<close> is always a socket the process has created: this holds at the start and
  every happening keeps it.
\<close>

lemma allocated_step:
  assumes "\<forall>w. ws s = WsObject w \<longrightarrow> w < next_socket s"
  shows "\<forall>w. ws (fst (step x s)) = WsObject w \<longrightarrow> w < next_socket (fst (step x s))"
proof (cases x)
  case (Invoke ev c cb t_id t_check t_open remaining)
  show ?thesis
  proof (cases "ws s")
    case (WsObject w0)
    show ?thesis
    proof (cases "1800000 \<le> t_check - wsConnectedAt s")
      case True
      with Invoke WsObject show ?thesis
        by (simp add: main_def disconnect_def connectAndSendMessage_def CONNECTION_LIFESPAN_def)
    next
      case False
      then have "t_check - wsConnectedAt s < 1800000" by simp
      from main_within[OF WsObject this] Invoke WsObject assms show ?thesis
        by (simp add: sendMessage_frame)
    qed
  next
    case WsNull
    with Invoke show ?thesis by (simp add: main_def connectAndSendMessage_def)
  next
    case WsUndefined
    with Invoke show ?thesis by (simp add: main_def connectAndSendMessage_def)
  qed
next
  case (SocketOpen w' r)
  with assms show ?thesis by (simp add: sendMessage_frame)
next
  case (SocketClose w' t)
  with assms show ?thesis
    by (simp add: ws_onclose_def Let_def connectAndSendMessage_def split: option.split)
next
  case (SocketMessage w' stk d)
  with assms show ?thesis by (simp add: receiveMessage_frame)
next
  case (SocketError w' e)
  with assms show ?thesis by (simp add: ws_onerror_def)
next
  case (TimerFires t)
  with assms show ?thesis by (simp add: keepAlive_frame)
qed

lemma allocated_run:
  "\<forall>w. ws s = WsObject w \<longrightarrow> w < next_socket s \<Longrightarrow>
   \<forall>w. ws (fst (run xs s)) = WsObject w \<longrightarrow> w < next_socket (fst (run xs s))"
proof (induction xs arbitrary: s)
  case Nil
  then show ?case by simp
next
  case (Cons x xs)
  obtain s1 r where st: "step x s = (s1, r)" by (cases "step x s")
  from allocated_step[OF Cons.prems, of x] st
  have s1: "\<forall>w. ws s1 = WsObject w \<longrightarrow> w < next_socket s1" by simp
  from Cons.IH[OF s1] s1 st show ?case by (cases r) simp_all
qed

lemma socket_allocated:
  "ws (fst (run xs (init env))) = WsObject w \<Longrightarrow> w < next_socket (fst (run xs (init env)))"
  using allocated_run[of "init env" xs] by (simp add: init_def)

text \<open>
  Scenario A: connect, send request \<^verbatim>\<open>r1-1000\<close>, arm the timer; the response stops the
  timer and completes the invocation with \<^verbatim>\<open>{y: 2}\<close>. Of the environment, the excluded
  \<^verbatim>\<open>PATH\<close> and \<^verbatim>\<open>SST_DEBUG_SRC_PATH\<close> are not forwarded.
\<close>

lemma scenario_A_completes:
  "trace (fst (run (scenario_A @ [SocketMessage 0 ''at main'' (Parsed response_r1)])
     (init [(''SST_DEBUG_SRC_PATH'', ''src''), (''PATH'', ''/bin''), (''STAGE'', ''dev'')])))
   = [NewWebSocket 0,
      Send 0 (Request
        \<lparr> rq_action = ''stub.lambdaRequest'', rq_debugRequestId = TStr ''r1-1000'',
          rq_debugRequestTimeoutInMs = 29990, rq_debugSrcPath = Some ''src'',
          rq_debugSrcHandler = None, rq_event = TObj (TObject PlainK [(''x'', TNum 1, True)]),
          rq_context = \<lparr> awsRequestId = ''r1'', functionName = ''handler'',
                         memoryLimitInMB = ''128'' \<rparr>,
          rq_env = [(''STAGE'', ''dev'')] \<rparr>),
      SetTimeout 0 540000,
      ClearTimeout 0,
      Callback 7 TNull (TObj (TObject PlainK [(''y'', TNum 2, True)]))]
   \<and> snd (run (scenario_A @ [SocketMessage 0 ''at main'' (Parsed response_r1)])
     (init [(''SST_DEBUG_SRC_PATH'', ''src''), (''PATH'', ''/bin''), (''STAGE'', ''dev'')])) = None"
  by (simp add: scenario_defs relay_defs constructEnvs_def excluded_envs_def)

text \<open>
  Scenario D: the socket reports \<^verbatim>\<open>ECONNRESET\<close> and closes while \<^verbatim>\<open>r1-1000\<close> is pending; the
  new socket opens. One reconnect, and the second request is the first one again but
  for the remaining time.
\<close>

lemma scenario_D:
  "map (\<lambda>x. case x of Send w (Request q) \<Rightarrow> Some (w, rq_debugRequestId q, rq_event q) | _ \<Rightarrow> None)
     (filter (\<lambda>x. is_connect x \<or> is_send x)
        (trace (fst (run (scenario_A @ [SocketError 0 econnreset, SocketClose 0 5000,
                                        SocketOpen 1 25000]) (init [])))))
   = [None, Some (0, TStr ''r1-1000'', payload_x1), None, Some (1, TStr ''r1-1000'', payload_x1)]
   \<and> filter is_connect
        (trace (fst (run (scenario_A @ [SocketError 0 econnreset, SocketClose 0 5000,
                                        SocketOpen 1 25000]) (init []))))
   = [NewWebSocket 0, NewWebSocket 1]"
  by (simp add: scenario_defs relay_defs)

text \<open>
  The completion callback is called on line 183 alone. A happening that adds a call to
  the trace is a message on a socket whose handler is attached, of the response kind,
  with the stored id and with no error; it adds that one call and nothing else but the
  stopped timer.
\<close>

lemma callbacks_stop_timer [simp]:
  "filter is_callback (trace (stop_timer s)) = filter is_callback (trace s)"
  by (simp add: stop_timer_trace split: option.split)

lemma callbacks_sendMessage:
  "filter is_callback (trace (fst (sendMessage r s))) = filter is_callback (trace s)"
  by (simp add: sendMessage_def setTimeout_def split: ws_ref.split option.split)

lemma callbacks_main:
  "filter is_callback (trace (fst (main ev c cb t_id t_check t_open remaining s)))
     = filter is_callback (trace s)"
proof (cases "ws s")
  case WsNull
  then show ?thesis by (simp add: main_def connectAndSendMessage_def)
next
  case WsUndefined
  then show ?thesis by (simp add: main_def connectAndSendMessage_def)
next
  case (WsObject w)
  show ?thesis
  proof (cases "1800000 \<le> t_check - wsConnectedAt s")
    case True
    with WsObject show ?thesis
      by (simp add: main_def disconnect_def connectAndSendMessage_def CONNECTION_LIFESPAN_def)
  next
    case False
    then have "t_check - wsConnectedAt s < 1800000" by simp
    from main_within[OF WsObject this] show ?thesis
      by (simp add: callbacks_sendMessage)
  qed
qed

lemma callbacks_ws_onclose:
  "filter is_callback (trace (fst (ws_onclose now s))) = filter is_callback (trace s)"
  by (simp add: ws_onclose_def Let_def connectAndSendMessage_def split: option.split)

lemma callbacks_keepAlive:
  "filter is_callback (trace (fst (keepAlive s))) = filter is_callback (trace s)"
  by (simp add: keepAlive_def split: ws_ref.split)

lemma callbacks_receiveMessage:
  assumes "filter is_callback (trace (fst (receiveMessage stk d s))) \<noteq> filter is_callback (trace s)"
  shows "\<exists>v cb. d = Parsed v
      \<and> field v ''action'' = TStr ''client.lambdaResponse''
      \<and> strict_eq (field v ''debugRequestId'') (debugRequestId s)
      \<and> \<not> truthy (field v ''responseError'')
      \<and> callback s = Some cb
      \<and> receiveMessage stk d s
          = ((stop_timer s)\<lparr> trace := trace (stop_timer s) @
                [Callback cb TNull (field v ''responseData'')] \<rparr>, None)"
proof (cases d)
  case Unparsable
  with assms show ?thesis by (simp add: receiveMessage_def)
next
  case (Parsed v)
  show ?thesis
  proof (cases "v = TNull \<or> v = TUndefined
      \<or> field v ''action'' = TStr ''server.failedToSendRequestDueToClientNotConnected''
      \<or> field v ''action'' = TStr ''server.failedToSendRequestDueToUnknown''
      \<or> field v ''action'' \<noteq> TStr ''client.lambdaResponse''
      \<or> \<not> strict_eq (field v ''debugRequestId'') (debugRequestId s)
      \<or> truthy (field v ''responseError'')")
    case True
    then have "filter is_callback (trace (fst (receiveMessage stk (Parsed v) s)))
        = filter is_callback (trace s)"
      by (auto simp: receiveMessage_def Let_def)
    with assms Parsed show ?thesis by simp
  next
    case False
    show ?thesis
    proof (cases "callback s")
      case None
      with False have "filter is_callback (trace (fst (receiveMessage stk (Parsed v) s)))
          = filter is_callback (trace s)"
        by (simp add: receiveMessage_def Let_def)
      with assms Parsed show ?thesis by simp
    next
      case (Some cb)
      with False Parsed show ?thesis
        by (simp add: receiveMessage_def Let_def)
    qed
  qed
qed

section \<open>The claims about the relay\<close>

text \<open>
  C1. The claim: every unsolicited close that is not an unresolvable-target failure is
  followed at once by exactly one new connection, on which the pending request is sent
  again with the same payload and correlation id. Here the socket of scenario A closes
  while request \<^verbatim>\<open>r1-1000\<close> is pending and no error event came before: the close handler
  stops with a TypeError, the trace holds the one connection and the one request of
  before the close, and \<^verbatim>\<open>_ref.ws\<close> is still the closed socket.
\<close>

theorem pending_request_not_resent_after_clean_close:
  "snd (run (scenario_A @ [SocketClose 0 700000]) (init [])) = Some TypeError
   \<and> filter is_connect (trace (fst (run (scenario_A @ [SocketClose 0 700000]) (init []))))
       = [NewWebSocket 0]
   \<and> length (filter is_send (trace (fst (run (scenario_A @ [SocketClose 0 700000]) (init []))))) = 1
   \<and> ws (fst (run (scenario_A @ [SocketClose 0 700000]) (init []))) = WsObject 0"
  by (simp add: scenario_defs relay_defs)

text \<open>
  C2. The claim: whenever the close handler runs, \<^verbatim>\<open>_ref.wsLastConnectError\<close> is not
  \<^verbatim>\<open>null\<close>. Here scenario A completes (the response \<^verbatim>\<open>{y: 2}\<close> arrives) and the idle socket
  then closes with no error event: the stored error is \<^verbatim>\<open>null\<close>, as line 47 left it, and
  the handler throws a TypeError where line 70 reads its \<^verbatim>\<open>type\<close>.
\<close>

theorem last_error_null_at_clean_close:
  "wsLastConnectError (fst (run (scenario_A @ [SocketMessage 0 ''at main'' (Parsed response_r1)])
                            (init []))) = None
   \<and> slot_of (fst (run (scenario_A @ [SocketMessage 0 ''at main'' (Parsed response_r1)])
                     (init []))) 0 onclose = Current
   \<and> snd (step (SocketClose 0 700000)
            (fst (run (scenario_A @ [SocketMessage 0 ''at main'' (Parsed response_r1)])
                   (init [])))) = Some TypeError"
  by (simp add: scenario_defs relay_defs)

text \<open>
  C3, as the claim states it, fails: the correlator does not clear the pending request,
  so a second frame with the same id completes the invocation a second time.
\<close>

theorem second_matching_frame_fires_again:
  "filter is_callback
     (trace (fst (run (scenario_A @ [SocketMessage 0 ''at main'' (Parsed response_r1),
                                     SocketMessage 0 ''at main'' (Parsed response_r1)])
                    (init []))))
   = [Callback 7 TNull (TObj (TObject PlainK [(''y'', TNum 2, True)])),
      Callback 7 TNull (TObj (TObject PlainK [(''y'', TNum 2, True)]))]"
  by (simp add: scenario_defs relay_defs)

text \<open>
  C3, amended. A frame of the response kind whose id equals the stored one stops the
  stored keep-alive timer first and then does exactly one of two things: it throws the
  decoded error when the frame carries one, or it calls the completion callback once
  with the payload. The stored id stays as it was, so this holds for every such frame.
\<close>

theorem matched_frame_fires_once:
  assumes "field v ''action'' = TStr ''client.lambdaResponse''"
    and "strict_eq (field v ''debugRequestId'') (debugRequestId s)"
    and "callback s = Some cb"
  shows "receiveMessage stk (Parsed v) s =
           (if truthy (field v ''responseError'')
            then (stop_timer s, Some (Thrown (deserialize_tval stk (field v ''responseError''))))
            else ((stop_timer s)\<lparr> trace := trace (stop_timer s) @
                     [Callback cb TNull (field v ''responseData'')] \<rparr>, None))
         \<and> debugRequestId (fst (receiveMessage stk (Parsed v) s)) = debugRequestId s
         \<and> armed (fst (receiveMessage stk (Parsed v) s))
             = (case keepAliveTimer s of Some t \<Rightarrow> removeAll t (armed s) | None \<Rightarrow> armed s)"
proof -
  from assms(1) have "v \<noteq> TNull \<and> v \<noteq> TUndefined" by (auto simp: field_def)
  with assms show ?thesis
    by (simp add: receiveMessage_def Let_def stop_timer_armed)
qed

theorem matched_frame_fires_once_witness:
  "receiveMessage ''at main'' (Parsed response_r1) (fst (run scenario_A (init [])))
     = ((stop_timer (fst (run scenario_A (init []))))
          \<lparr> trace := trace (stop_timer (fst (run scenario_A (init [])))) @
               [Callback 7 TNull (TObj (TObject PlainK [(''y'', TNum 2, True)]))] \<rparr>, None)
   \<and> armed (fst (receiveMessage ''at main'' (Parsed response_r1) (fst (run scenario_A (init []))))) = []"
proof -
  have a: "field response_r1 ''action'' = TStr ''client.lambdaResponse''"
    by (simp add: scenario_defs field_def tget_def)
  have b: "strict_eq (field response_r1 ''debugRequestId'') (debugRequestId (fst (run scenario_A (init []))))"
    by (simp add: scenario_defs relay_defs strict_eq_def)
  have c: "callback (fst (run scenario_A (init []))) = Some 7"
    by (simp add: scenario_defs relay_defs)
  have d: "field response_r1 ''responseError'' = TUndefined"
      "field response_r1 ''responseData'' = TObj (TObject PlainK [(''y'', TNum 2, True)])"
    by (simp_all add: scenario_defs field_def tget_def)
  have e: "keepAliveTimer (fst (run scenario_A (init []))) = Some 0"
      "armed (fst (run scenario_A (init []))) = [0]"
    by (simp_all add: scenario_defs relay_defs)
  from matched_frame_fires_once[OF a b c, of "''at main''"] d e show ?thesis
    by (simp add: stop_timer_armed)
qed

text \<open>
  C4, as the claim states it, fails: on a failure signal of the remote relay the
  message handler throws, and the completion callback is not called.
\<close>

theorem relay_failure_is_thrown:
  "snd (run (scenario_A @ [SocketMessage 0 ''at main'' (Parsed not_connected)]) (init []))
     = Some (Error ''Debug client not connected.'')
   \<and> filter is_callback
       (trace (fst (run (scenario_A @ [SocketMessage 0 ''at main'' (Parsed not_connected)])
                      (init [])))) = []"
  by (simp add: scenario_defs relay_defs)

text \<open>
  C4, amended. The two failure signals and a matched response that carries an error
  each end the message handler with an exception of their own: an \<^verbatim>\<open>Error\<close> with its own
  message for each signal, the decoded error for the response. The state is left as it
  was, but for the stopped timer in the third case: no callback, no connect, no send.
  And whatever happens, in whatever state: if it adds a call of the completion callback
  to the trace, it is a message of the response kind with the stored id and with no
  error, and the call is the one of line 183, with a \<^verbatim>\<open>null\<close> error and the payload.
\<close>

theorem failures_end_in_distinct_exceptions:
  "(field v1 ''action'' = TStr ''server.failedToSendRequestDueToClientNotConnected'' \<longrightarrow>
      receiveMessage stk (Parsed v1) s = (s, Some (Error ''Debug client not connected.'')))
   \<and> (field v2 ''action'' = TStr ''server.failedToSendRequestDueToUnknown'' \<longrightarrow>
      receiveMessage stk (Parsed v2) s = (s, Some (Error ''Failed to send request to debug client.'')))
   \<and> (field v3 ''action'' = TStr ''client.lambdaResponse''
        \<and> strict_eq (field v3 ''debugRequestId'') (debugRequestId s)
        \<and> truthy (field v3 ''responseError'') \<longrightarrow>
      receiveMessage stk (Parsed v3) s
        = (stop_timer s, Some (Thrown (deserialize_tval stk (field v3 ''responseError'')))))
   \<and> (filter is_callback (trace (fst (step x s))) \<noteq> filter is_callback (trace s) \<longrightarrow>
      (\<exists>w k v cb. x = SocketMessage w k (Parsed v)
         \<and> field v ''action'' = TStr ''client.lambdaResponse''
         \<and> strict_eq (field v ''debugRequestId'') (debugRequestId s)
         \<and> \<not> truthy (field v ''responseError'')
         \<and> callback s = Some cb
         \<and> step x s = ((stop_timer s)\<lparr> trace := trace (stop_timer s) @
                          [Callback cb TNull (field v ''responseData'')] \<rparr>, None)))"
proof (intro conjI impI)
  assume a: "field v1 ''action'' = TStr ''server.failedToSendRequestDueToClientNotConnected''"
  then have "v1 \<noteq> TNull \<and> v1 \<noteq> TUndefined" by (auto simp: field_def)
  with a show "receiveMessage stk (Parsed v1) s = (s, Some (Error ''Debug client not connected.''))"
    by (simp add: receiveMessage_def)
next
  assume a: "field v2 ''action'' = TStr ''server.failedToSendRequestDueToUnknown''"
  then have "v2 \<noteq> TNull \<and> v2 \<noteq> TUndefined" by (auto simp: field_def)
  with a show "receiveMessage stk (Parsed v2) s
      = (s, Some (Error ''Failed to send request to debug client.''))"
    by (simp add: receiveMessage_def)
next
  assume a: "field v3 ''action'' = TStr ''client.lambdaResponse''
        \<and> strict_eq (field v3 ''debugRequestId'') (debugRequestId s)
        \<and> truthy (field v3 ''responseError'')"
  then have "v3 \<noteq> TNull \<and> v3 \<noteq> TUndefined" by (auto simp: field_def)
  with a show "receiveMessage stk (Parsed v3) s
        = (stop_timer s, Some (Thrown (deserialize_tval stk (field v3 ''responseError''))))"
    by (simp add: receiveMessage_def Let_def)
next
  assume a: "filter is_callback (trace (fst (step x s))) \<noteq> filter is_callback (trace s)"
  show "\<exists>w k v cb. x = SocketMessage w k (Parsed v)
         \<and> field v ''action'' = TStr ''client.lambdaResponse''
         \<and> strict_eq (field v ''debugRequestId'') (debugRequestId s)
         \<and> \<not> truthy (field v ''responseError'')
         \<and> callback s = Some cb
         \<and> step x s = ((stop_timer s)\<lparr> trace := trace (stop_timer s) @
                          [Callback cb TNull (field v ''responseData'')] \<rparr>, None)"
  proof (cases x)
    case (Invoke ev c cb t_id t_check t_open remaining)
    with a show ?thesis by (simp add: callbacks_main)
  next
    case (SocketOpen w r)
    with a show ?thesis by (simp add: callbacks_sendMessage split: if_splits)
  next
    case (SocketClose w t)
    with a show ?thesis by (simp add: callbacks_ws_onclose split: if_splits)
  next
    case (SocketMessage w k d)
    with a have cur: "slot_of s w onmessage = Current"
      and ch: "filter is_callback (trace (fst (receiveMessage k d s))) \<noteq> filter is_callback (trace s)"
      by (auto split: if_splits)
    from callbacks_receiveMessage[OF ch] obtain v cb where
      "d = Parsed v" "field v ''action'' = TStr ''client.lambdaResponse''"
      "strict_eq (field v ''debugRequestId'') (debugRequestId s)"
      "\<not> truthy (field v ''responseError'')" "callback s = Some cb"
      "receiveMessage k d s = ((stop_timer s)\<lparr> trace := trace (stop_timer s) @
                [Callback cb TNull (field v ''responseData'')] \<rparr>, None)"
      by blast
    with SocketMessage cur show ?thesis by simp
  next
    case (SocketError w e)
    with a show ?thesis by (simp add: ws_onerror_def split: if_splits)
  next
    case (TimerFires t)
    with a show ?thesis by (simp add: callbacks_keepAlive split: if_splits)
  qed
qed

text \<open>Scenario F and its two siblings, while \<^verbatim>\<open>r1-1000\<close> is pending.\<close>

theorem failures_end_in_distinct_exceptions_witness:
  "receiveMessage ''at main'' (Parsed not_connected) (fst (run scenario_A (init [])))
     = (fst (run scenario_A (init [])), Some (Error ''Debug client not connected.''))
   \<and> receiveMessage ''at main'' (Parsed unknown_failure) (fst (run scenario_A (init [])))
     = (fst (run scenario_A (init [])), Some (Error ''Failed to send request to debug client.''))
   \<and> receiveMessage ''at main'' (Parsed response_error_r1) (fst (run scenario_A (init [])))
     = (stop_timer (fst (run scenario_A (init []))),
        Some (Thrown (deserialize_tval ''at main'' (field response_error_r1 ''responseError''))))
   \<and> filter is_callback
        (trace (fst (step (SocketMessage 0 ''at main'' (Parsed response_r1))
                      (fst (run scenario_A (init []))))))
       \<noteq> filter is_callback (trace (fst (run scenario_A (init []))))
   \<and> (\<exists>w k v cb. SocketMessage 0 ''at main'' (Parsed response_r1) = SocketMessage w k (Parsed v)
         \<and> field v ''action'' = TStr ''client.lambdaResponse''
         \<and> \<not> truthy (field v ''responseError'')
         \<and> callback (fst (run scenario_A (init []))) = Some cb)"
proof -
  have h4: "filter is_callback
        (trace (fst (step (SocketMessage 0 ''at main'' (Parsed response_r1))
                      (fst (run scenario_A (init []))))))
       \<noteq> filter is_callback (trace (fst (run scenario_A (init []))))"
    by (simp add: scenario_defs relay_defs strict_eq_def)
  have h1: "field not_connected ''action'' = TStr ''server.failedToSendRequestDueToClientNotConnected''"
    by (simp add: not_connected_def field_def tget_def)
  have h2: "field unknown_failure ''action'' = TStr ''server.failedToSendRequestDueToUnknown''"
    by (simp add: unknown_failure_def field_def tget_def)
  have h3: "field response_error_r1 ''action'' = TStr ''client.lambdaResponse''
      \<and> strict_eq (field response_error_r1 ''debugRequestId'')
            (debugRequestId (fst (run scenario_A (init []))))
      \<and> truthy (field response_error_r1 ''responseError'')"
    by (simp add: scenario_defs relay_defs strict_eq_def)
  note inst = failures_end_in_distinct_exceptions[of not_connected "''at main''"
      "fst (run scenario_A (init []))" unknown_failure response_error_r1
      "SocketMessage 0 ''at main'' (Parsed response_r1)"]
  from inst h1 h2 h3
  have a: "receiveMessage ''at main'' (Parsed not_connected) (fst (run scenario_A (init [])))
       = (fst (run scenario_A (init [])), Some (Error ''Debug client not connected.''))"
    and b: "receiveMessage ''at main'' (Parsed unknown_failure) (fst (run scenario_A (init [])))
       = (fst (run scenario_A (init [])), Some (Error ''Failed to send request to debug client.''))"
    and c: "receiveMessage ''at main'' (Parsed response_error_r1) (fst (run scenario_A (init [])))
       = (stop_timer (fst (run scenario_A (init []))),
          Some (Thrown (deserialize_tval ''at main'' (field response_error_r1 ''responseError''))))"
    by blast+
  from inst h4
  have d: "\<exists>w k v cb. SocketMessage 0 ''at main'' (Parsed response_r1) = SocketMessage w k (Parsed v)
         \<and> field v ''action'' = TStr ''client.lambdaResponse''
         \<and> \<not> truthy (field v ''responseError'')
         \<and> callback (fst (run scenario_A (init []))) = Some cb"
    by blast
  from a b c d h4 show ?thesis by blast
qed

text \<open>
  C5. An invocation that finds a socket opened at least 1800000 ms before rotates once:
  \<^verbatim>\<open>main\<close> gives the four handler slots of the old socket the logging closures, closes
  it once and creates one new socket, in this order, and sends nothing itself. Every
  later event of the old socket changes nothing. When the new socket opens, the request
  of this invocation goes out on it: the frame carries the id that this invocation
  generated and its event, and the callback stored is the one of this invocation.
\<close>

theorem rotation_at_lifespan:
  assumes "ws s = WsObject w" and "w < next_socket s"
    and "1800000 \<le> t_check - wsConnectedAt s"
  shows "\<exists>s'. main ev c cb t_id t_check t_open remaining s = (s', None)
      \<and> trace s' = trace s @ [CloseSocket w, NewWebSocket (next_socket s)]
      \<and> sockets s' w = Some \<lparr> onopen = OldConnection, onclose = OldConnection,
                               onmessage = OldConnection, onerror = OldConnection \<rparr>
      \<and> ws s' = WsObject (next_socket s)
      \<and> wsConnectedAt s' = t_open
      \<and> event s' = ev
      \<and> debugRequestId s' = TStr (awsRequestId c @ ''-'' @ show_int t_id)
      \<and> callback s' = Some cb
      \<and> step (SocketOpen w r1) s' = (s', None)
      \<and> step (SocketClose w t1) s' = (s', None)
      \<and> step (SocketMessage w stk d) s' = (s', None)
      \<and> step (SocketError w e) s' = (s', None)
      \<and> (\<exists>s''. step (SocketOpen (next_socket s) r2) s' = (s'', None)
            \<and> trace s'' = trace s' @
                 [Send (next_socket s)
                    (Request
                       \<lparr> rq_action = ''stub.lambdaRequest'',
                     rq_debugRequestId = TStr (awsRequestId c @ ''-'' @ show_int t_id),
                     rq_debugRequestTimeoutInMs = r2,
                     rq_debugSrcPath = map_of (process_env s) ''SST_DEBUG_SRC_PATH'',
                     rq_debugSrcHandler = map_of (process_env s) ''SST_DEBUG_SRC_HANDLER'',
                     rq_event = ev,
                     rq_context = c,
                     rq_env = constructEnvs (process_env s) \<rparr>),
                  SetTimeout (next_timer s) 540000])"
  using assms
  by (simp add: main_def disconnect_def connectAndSendMessage_def CONNECTION_LIFESPAN_def
        slot_of_def sendMessage_def setTimeout_def lambdaRequest_def)

text \<open>Scenario C: the second invocation comes 31 minutes after the first connect.\<close>

theorem rotation_at_lifespan_witness:
  "ws (fst (run scenario_A (init []))) = WsObject 0
   \<and> 0 < next_socket (fst (run scenario_A (init [])))
   \<and> (1800000::int) \<le> 1861000 - wsConnectedAt (fst (run scenario_A (init [])))
   \<and> filter (\<lambda>x. is_close x \<or> is_connect x)
        (trace (fst (main payload_x1 context_r1 8 1861000 1861000 1861000 30000
                      (fst (run scenario_A (init []))))))
       = [NewWebSocket 0, CloseSocket 0, NewWebSocket 1]
   \<and> debugRequestId (fst (main payload_x1 context_r1 8 1861000 1861000 1861000 30000
                            (fst (run scenario_A (init []))))) = TStr ''r1-1861000''"
proof -
  have h1: "ws (fst (run scenario_A (init []))) = WsObject 0"
    by (simp add: scenario_defs relay_defs)
  have h2: "0 < next_socket (fst (run scenario_A (init [])))"
    by (simp add: scenario_defs relay_defs)
  have h3: "(1800000::int) \<le> 1861000 - wsConnectedAt (fst (run scenario_A (init [])))"
    by (simp add: scenario_defs relay_defs)
  have tr: "filter (\<lambda>x. is_close x \<or> is_connect x) (trace (fst (run scenario_A (init []))))
      = [NewWebSocket 0]"
    by (simp add: scenario_defs relay_defs)
  have n: "next_socket (fst (run scenario_A (init []))) = 1"
    by (simp add: scenario_defs relay_defs)
  from rotation_at_lifespan[OF h1 h2 h3, of payload_x1 context_r1 8 1861000 1861000 30000]
  obtain s' where "main payload_x1 context_r1 8 1861000 1861000 1861000 30000
        (fst (run scenario_A (init []))) = (s', None)"
    and "trace s' = trace (fst (run scenario_A (init [])))
          @ [CloseSocket 0, NewWebSocket (next_socket (fst (run scenario_A (init []))))]"
    and "debugRequestId s' = TStr (awsRequestId context_r1 @ ''-'' @ show_int 1861000)"
    by blast
  with tr n have "filter (\<lambda>x. is_close x \<or> is_connect x)
        (trace (fst (main payload_x1 context_r1 8 1861000 1861000 1861000 30000
                      (fst (run scenario_A (init []))))))
       = [NewWebSocket 0, CloseSocket 0, NewWebSocket 1]
     \<and> debugRequestId (fst (main payload_x1 context_r1 8 1861000 1861000 1861000 30000
                            (fst (run scenario_A (init []))))) = TStr ''r1-1861000''"
    by (simp add: context_r1_def show_int_def show_nat.simps digit_char_def)
  with h1 h2 h3 show ?thesis by blast
qed

text \<open>
  C6, as the claim states it, fails: it speaks of every sequence of invocations issued
  within the lifespan, and a socket may close between two of them. Here scenario A
  completes, the socket reports \<^verbatim>\<open>ECONNRESET\<close> and closes, the relay reconnects at time
  4000, and a second invocation comes at time 6000: both invocations are within the
  lifespan of the connection they find, and two connections have been opened.
\<close>

theorem close_between_invocations_opens_again:
  "(6000::int) - wsConnectedAt
       (fst (run (scenario_A @ [SocketMessage 0 ''at main'' (Parsed response_r1),
                                SocketError 0 econnreset, SocketClose 0 4000,
                                SocketOpen 1 25000]) (init []))) < 1800000
   \<and> run (scenario_A @ [SocketMessage 0 ''at main'' (Parsed response_r1),
                         SocketError 0 econnreset, SocketClose 0 4000, SocketOpen 1 25000,
                         Invoke payload_x1 context_r1 8 6000 6000 6000 30000]) (init [])
       = (fst (run (scenario_A @ [SocketMessage 0 ''at main'' (Parsed response_r1),
                         SocketError 0 econnreset, SocketClose 0 4000, SocketOpen 1 25000,
                         Invoke payload_x1 context_r1 8 6000 6000 6000 30000]) (init [])), None)
   \<and> connects (trace (fst (run (scenario_A @ [SocketMessage 0 ''at main'' (Parsed response_r1),
                         SocketError 0 econnreset, SocketClose 0 4000, SocketOpen 1 25000,
                         Invoke payload_x1 context_r1 8 6000 6000 6000 30000]) (init [])))) = 2"
  by (simp add: scenario_defs relay_defs connects_def)

text \<open>
  C6, amended. An invocation that finds a socket opened less than 1800000 ms before
  sends its own request on that socket (the frame carries the id this invocation
  generated and its event, and its callback is stored) and leaves the transport alone.
  In a run that starts with the first invocation of a fresh process and goes on with
  calm happenings (invocations checked within the lifespan of the connection, and any
  events but a close of a socket), one connection is opened and none is closed.
\<close>

theorem reuse_within_lifespan:
  "(ws s = WsObject w \<and> t_check - wsConnectedAt s < 1800000 \<longrightarrow>
      (\<exists>s'. main ev c cb t_id t_check t_open remaining s = (s', None)
         \<and> ws s' = WsObject w \<and> sockets s' = sockets s \<and> wsConnectedAt s' = wsConnectedAt s
         \<and> event s' = ev
         \<and> debugRequestId s' = TStr (awsRequestId c @ ''-'' @ show_int t_id)
         \<and> callback s' = Some cb
         \<and> trace s' = trace s @
              [Send w
                 (Request
                    \<lparr> rq_action = ''stub.lambdaRequest'',
                     rq_debugRequestId = TStr (awsRequestId c @ ''-'' @ show_int t_id),
                     rq_debugRequestTimeoutInMs = remaining,
                     rq_debugSrcPath = map_of (process_env s) ''SST_DEBUG_SRC_PATH'',
                     rq_debugSrcHandler = map_of (process_env s) ''SST_DEBUG_SRC_HANDLER'',
                     rq_event = ev,
                     rq_context = c,
                     rq_env = constructEnvs (process_env s) \<rparr>),
               SetTimeout (next_timer s) 540000]))
   \<and> ((\<forall>x\<in>set xs. calm t0 x) \<longrightarrow>
        connects (trace (fst (run (Invoke ev0 c0 cb0 i0 k0 t0 r0 # xs) (init env)))) = 1
      \<and> filter is_close (trace (fst (run (Invoke ev0 c0 cb0 i0 k0 t0 r0 # xs) (init env)))) = []
      \<and> ws (fst (run (Invoke ev0 c0 cb0 i0 k0 t0 r0 # xs) (init env))) = WsObject 0)"
proof (intro conjI impI)
  assume "ws s = WsObject w \<and> t_check - wsConnectedAt s < 1800000"
  then show "\<exists>s'. main ev c cb t_id t_check t_open remaining s = (s', None)
         \<and> ws s' = WsObject w \<and> sockets s' = sockets s \<and> wsConnectedAt s' = wsConnectedAt s
         \<and> event s' = ev
         \<and> debugRequestId s' = TStr (awsRequestId c @ ''-'' @ show_int t_id)
         \<and> callback s' = Some cb
         \<and> trace s' = trace s @
              [Send w
                 (Request
                    \<lparr> rq_action = ''stub.lambdaRequest'',
                     rq_debugRequestId = TStr (awsRequestId c @ ''-'' @ show_int t_id),
                     rq_debugRequestTimeoutInMs = remaining,
                     rq_debugSrcPath = map_of (process_env s) ''SST_DEBUG_SRC_PATH'',
                     rq_debugSrcHandler = map_of (process_env s) ''SST_DEBUG_SRC_HANDLER'',
                     rq_event = ev,
                     rq_context = c,
                     rq_env = constructEnvs (process_env s) \<rparr>),
               SetTimeout (next_timer s) 540000]"
    by (simp add: main_def sendMessage_def setTimeout_def CONNECTION_LIFESPAN_def lambdaRequest_def)
next
  assume calm: "\<forall>x\<in>set xs. calm t0 x"
  define s1 where "s1 = fst (main ev0 c0 cb0 i0 k0 t0 r0 (init env))"
  have m: "main ev0 c0 cb0 i0 k0 t0 r0 (init env) = (s1, None)"
    by (simp add: s1_def main_def init_def connectAndSendMessage_def)
  have f: "ws s1 = WsObject 0" "wsConnectedAt s1 = t0" "trace s1 = [NewWebSocket 0]"
    by (simp_all add: s1_def main_def init_def connectAndSendMessage_def)
  from calm f have "\<forall>x\<in>set xs. calm (wsConnectedAt s1) x" by simp
  from calm_run[OF f(1) this] f m
  show "connects (trace (fst (run (Invoke ev0 c0 cb0 i0 k0 t0 r0 # xs) (init env)))) = 1"
    and "filter is_close (trace (fst (run (Invoke ev0 c0 cb0 i0 k0 t0 r0 # xs) (init env)))) = []"
    and "ws (fst (run (Invoke ev0 c0 cb0 i0 k0 t0 r0 # xs) (init env))) = WsObject 0"
    by (simp_all add: connects_def)
qed

text \<open>Scenario B: the response arrives, and a second invocation follows 5 s later.\<close>

theorem reuse_within_lifespan_witness:
  "ws (fst (run scenario_A (init []))) = WsObject 0
   \<and> (6000::int) - wsConnectedAt (fst (run scenario_A (init []))) < 1800000
   \<and> list_all (calm 1000)
        [SocketOpen 0 29990, SocketMessage 0 ''at main'' (Parsed response_r1),
         Invoke payload_x1 context_r1 8 6000 6000 6000 30000]
   \<and> (\<exists>s'. main payload_x1 context_r1 8 6000 6000 6000 30000 (fst (run scenario_A (init [])))
              = (s', None)
          \<and> ws s' = WsObject 0
          \<and> sockets s' = sockets (fst (run scenario_A (init []))))
   \<and> connects (trace (fst (run (Invoke payload_x1 context_r1 7 1000 1000 1000 30000 #
        [SocketOpen 0 29990, SocketMessage 0 ''at main'' (Parsed response_r1),
         Invoke payload_x1 context_r1 8 6000 6000 6000 30000]) (init [])))) = 1"
proof -
  have h1: "ws (fst (run scenario_A (init []))) = WsObject 0
      \<and> (6000::int) - wsConnectedAt (fst (run scenario_A (init []))) < 1800000"
    by (simp add: scenario_defs relay_defs)
  have h2: "\<forall>x\<in>set [SocketOpen 0 29990, SocketMessage 0 ''at main'' (Parsed response_r1),
              Invoke payload_x1 context_r1 8 6000 6000 6000 30000]. calm 1000 x"
    by simp
  have h2': "list_all (calm 1000)
        [SocketOpen 0 29990, SocketMessage 0 ''at main'' (Parsed response_r1),
         Invoke payload_x1 context_r1 8 6000 6000 6000 30000]"
    by simp
  from reuse_within_lifespan[of "fst (run scenario_A (init []))" 0 6000
        payload_x1 context_r1 8 6000 6000 30000
        "[SocketOpen 0 29990, SocketMessage 0 ''at main'' (Parsed response_r1),
          Invoke payload_x1 context_r1 8 6000 6000 6000 30000]" 1000
        payload_x1 context_r1 7 1000 1000 30000 "[]"] h1 h2
  have "(\<exists>s'. main payload_x1 context_r1 8 6000 6000 6000 30000 (fst (run scenario_A (init [])))
              = (s', None)
          \<and> ws s' = WsObject 0
          \<and> sockets s' = sockets (fst (run scenario_A (init []))))
   \<and> connects (trace (fst (run (Invoke payload_x1 context_r1 7 1000 1000 1000 30000 #
        [SocketOpen 0 29990, SocketMessage 0 ''at main'' (Parsed response_r1),
         Invoke payload_x1 context_r1 8 6000 6000 6000 30000]) (init [])))) = 1"
    by blast
  with h1 h2' show ?thesis by blast
qed

text \<open>
  C7. When the socket closes and the stored error is an error event whose message
  starts with \<^verbatim>\<open>getaddrinfo ENOTFOUND\<close>, the handler stops the timer, drops the handle and
  does nothing else. In any quiet run after it (no new invocation, no further error
  event) no socket is created and nothing is sent.
\<close>

theorem unresolvable_close_is_terminal:
  assumes "slot_of s w onclose = Current" and "wsLastConnectError s = Some e"
    and "unresolvable e" and "\<forall>x\<in>set xs. quiet x"
  shows "\<exists>s'. step (SocketClose w now) s = (s', None)
      \<and> ws s' = WsUndefined
      \<and> trace s' = trace (stop_timer s)
      \<and> connects (trace s') = connects (trace s)
      \<and> filter is_send (trace s') = filter is_send (trace s)
      \<and> ws (fst (run xs s')) = WsUndefined
      \<and> connects (trace (fst (run xs s'))) = connects (trace s)
      \<and> filter is_send (trace (fst (run xs s'))) = filter is_send (trace s)"
proof -
  define s' where "s' = (stop_timer s)\<lparr> ws := WsUndefined \<rparr>"
  have st: "step (SocketClose w now) s = (s', None)"
    using assms(1-3) by (simp add: ws_onclose_def Let_def s'_def)
  have f: "ws s' = WsUndefined" "wsLastConnectError s' = Some e" "trace s' = trace (stop_timer s)"
    using assms(2) by (simp_all add: s'_def)
  from quiet_run[OF f(1) f(2) assms(3) assms(4)] f st show ?thesis by simp
qed

text \<open>Scenario E: the error \<^verbatim>\<open>getaddrinfo ENOTFOUND host\<close>, the close, and then more events.\<close>

theorem unresolvable_close_is_terminal_witness:
  "slot_of (fst (run (scenario_A @ [SocketError 0 enotfound]) (init []))) 0 onclose = Current
   \<and> wsLastConnectError (fst (run (scenario_A @ [SocketError 0 enotfound]) (init []))) = Some enotfound
   \<and> unresolvable enotfound
   \<and> list_all quiet [SocketClose 0 9000, SocketMessage 0 ''at main'' (Parsed response_r1)]
   \<and> (\<exists>s'. step (SocketClose 0 5000) (fst (run (scenario_A @ [SocketError 0 enotfound]) (init [])))
              = (s', None)
        \<and> ws s' = WsUndefined
        \<and> connects (trace (fst (run [SocketClose 0 9000,
                                     SocketMessage 0 ''at main'' (Parsed response_r1)] s'))) = 1)"
proof -
  have h1: "slot_of (fst (run (scenario_A @ [SocketError 0 enotfound]) (init []))) 0 onclose = Current"
    by (simp add: scenario_defs relay_defs)
  have h2: "wsLastConnectError (fst (run (scenario_A @ [SocketError 0 enotfound]) (init [])))
      = Some enotfound"
    by (simp add: scenario_defs relay_defs)
  have h3: "unresolvable enotfound"
    by (simp add: unresolvable_def enotfound_def)
  have h4: "\<forall>x\<in>set [SocketClose 0 9000, SocketMessage 0 ''at main'' (Parsed response_r1)]. quiet x"
    by simp
  have c: "connects (trace (fst (run (scenario_A @ [SocketError 0 enotfound]) (init [])))) = 1"
    by (simp add: scenario_defs relay_defs connects_def)
  from unresolvable_close_is_terminal[OF h1 h2 h3 h4, of 5000]
  obtain s' where
    "step (SocketClose 0 5000) (fst (run (scenario_A @ [SocketError 0 enotfound]) (init [])))
       = (s', None)"
    and "ws s' = WsUndefined"
    and "connects (trace (fst (run [SocketClose 0 9000,
                                    SocketMessage 0 ''at main'' (Parsed response_r1)] s')))
         = connects (trace (fst (run (scenario_A @ [SocketError 0 enotfound]) (init []))))"
    by blast
  with c have "\<exists>s'. step (SocketClose 0 5000) (fst (run (scenario_A @ [SocketError 0 enotfound]) (init [])))
              = (s', None)
        \<and> ws s' = WsUndefined
        \<and> connects (trace (fst (run [SocketClose 0 9000,
                                     SocketMessage 0 ''at main'' (Parsed response_r1)] s'))) = 1"
    by metis
  moreover have "list_all quiet [SocketClose 0 9000, SocketMessage 0 ''at main'' (Parsed response_r1)]"
    by simp
  ultimately show ?thesis using h1 h2 h3 by blast
qed

text \<open>
  C8, as the claim states it, fails: it speaks of every inbound frame. The frame
  \<^verbatim>\<open>null\<close> has no kind, so its kind is not the response kind and it is no failure signal,
  and the same holds of a frame that is not JSON. Neither is dropped silently: the
  destructuring of line 147, or \<^verbatim>\<open>JSON.parse\<close> itself, throws out of the message handler.
\<close>

theorem null_frame_is_thrown:
  "field TNull ''action'' \<noteq> TStr ''client.lambdaResponse''
   \<and> field TNull ''action'' \<noteq> TStr ''server.failedToSendRequestDueToClientNotConnected''
   \<and> field TNull ''action'' \<noteq> TStr ''server.failedToSendRequestDueToUnknown''
   \<and> step (SocketMessage 0 ''at main'' (Parsed TNull)) (fst (run scenario_A (init [])))
       = (fst (run scenario_A (init [])), Some TypeError)
   \<and> step (SocketMessage 0 ''at main'' Unparsable) (fst (run scenario_A (init [])))
       = (fst (run scenario_A (init [])), Some SyntaxError)"
  by (simp add: scenario_defs relay_defs)

text \<open>
  C8, amended. A frame that parses to a value other than \<^verbatim>\<open>null\<close>, whose kind is neither
  failure signal, and whose kind is not the response kind or whose id is not the stored
  one, is dropped: the handler returns and the state, with its socket, pending request,
  timer and trace, is exactly what it was.
\<close>

theorem discard_unmatched:
  assumes "v \<noteq> TNull" and "v \<noteq> TUndefined"
    and "field v ''action'' \<noteq> TStr ''server.failedToSendRequestDueToClientNotConnected''"
    and "field v ''action'' \<noteq> TStr ''server.failedToSendRequestDueToUnknown''"
    and "field v ''action'' \<noteq> TStr ''client.lambdaResponse''
         \<or> \<not> strict_eq (field v ''debugRequestId'') (debugRequestId s)"
  shows "receiveMessage stk (Parsed v) s = (s, None)
         \<and> step (SocketMessage w stk (Parsed v)) s = (s, None)"
  using assms by (auto simp: receiveMessage_def)

theorem discard_unmatched_witness:
  "response_r0 \<noteq> TNull
   \<and> response_r0 \<noteq> TUndefined
   \<and> field response_r0 ''action'' \<noteq> TStr ''server.failedToSendRequestDueToClientNotConnected''
   \<and> field response_r0 ''action'' \<noteq> TStr ''server.failedToSendRequestDueToUnknown''
   \<and> \<not> strict_eq (field response_r0 ''debugRequestId'')
                   (debugRequestId (fst (run scenario_A (init []))))
   \<and> step (SocketMessage 0 ''at main'' (Parsed response_r0)) (fst (run scenario_A (init [])))
       = (fst (run scenario_A (init [])), None)"
proof -
  have h1: "response_r0 \<noteq> TNull" by (simp add: response_r0_def)
  have h0: "response_r0 \<noteq> TUndefined" by (simp add: response_r0_def)
  have h2: "field response_r0 ''action'' \<noteq> TStr ''server.failedToSendRequestDueToClientNotConnected''"
    by (simp add: response_r0_def field_def tget_def)
  have h3: "field response_r0 ''action'' \<noteq> TStr ''server.failedToSendRequestDueToUnknown''"
    by (simp add: response_r0_def field_def tget_def)
  have h4: "\<not> strict_eq (field response_r0 ''debugRequestId'')
                   (debugRequestId (fst (run scenario_A (init []))))"
    by (simp add: response_r0_def scenario_defs relay_defs strict_eq_def)
  from h4 have h4': "field response_r0 ''action'' \<noteq> TStr ''client.lambdaResponse''
         \<or> \<not> strict_eq (field response_r0 ''debugRequestId'')
                         (debugRequestId (fst (run scenario_A (init []))))"
    by blast
  from discard_unmatched[OF h1 h0 h2 h3 h4', of "''at main''" 0] h0 h1 h2 h3 h4
  show ?thesis by blast
qed

text \<open>
  C10. \<^verbatim>\<open>sendMessage\<close> sends the request and arms one timer, for 540000 ms. A timer that
  is armed and fires while \<^verbatim>\<open>_ref.ws\<close> is a socket sends one keep-alive frame on that
  socket, arms nothing, and is no longer armed: it cannot fire again.
\<close>

theorem keep_alive_single:
  "(ws s = WsObject w \<and> ctx s = Some c \<longrightarrow>
      (\<exists>s'. sendMessage remaining s = (s', None)
         \<and> trace s' = trace s @ [Send w (Request (lambdaRequest remaining c s)),
                                  SetTimeout (next_timer s) 540000]
         \<and> keepAliveTimer s' = Some (next_timer s)
         \<and> armed s' = next_timer s # armed s))
   \<and> (t \<in> set (armed s2) \<and> ws s2 = WsObject w2 \<longrightarrow>
      (\<exists>s3. step (TimerFires t) s2 = (s3, None)
         \<and> trace s3 = trace s2 @ [Send w2 KeepAlive]
         \<and> armed s3 = removeAll t (armed s2)
         \<and> step (TimerFires t) s3 = (s3, None)))"
  by (simp add: sendMessage_def setTimeout_def keepAlive_def)

text \<open>Scenario A, nine minutes on: the timer of the request fires.\<close>

theorem keep_alive_single_witness:
  "ws (fst (run [Invoke payload_x1 context_r1 7 1000 1000 1000 30000] (init []))) = WsObject 0
   \<and> ctx (fst (run [Invoke payload_x1 context_r1 7 1000 1000 1000 30000] (init [])))
       = Some context_r1
   \<and> (\<exists>s'. sendMessage 29990 (fst (run [Invoke payload_x1 context_r1 7 1000 1000 1000 30000] (init [])))
              = (s', None)
        \<and> keepAliveTimer s' = Some 0 \<and> armed s' = [0])
   \<and> 0 \<in> set (armed (fst (run scenario_A (init []))))
   \<and> ws (fst (run scenario_A (init []))) = WsObject 0
   \<and> (\<exists>s3. step (TimerFires 0) (fst (run scenario_A (init []))) = (s3, None)
         \<and> trace s3 = trace (fst (run scenario_A (init []))) @ [Send 0 KeepAlive]
         \<and> armed s3 = removeAll 0 (armed (fst (run scenario_A (init []))))
         \<and> step (TimerFires 0) s3 = (s3, None))"
proof -
  have h1: "ws (fst (run [Invoke payload_x1 context_r1 7 1000 1000 1000 30000] (init []))) = WsObject 0
      \<and> ctx (fst (run [Invoke payload_x1 context_r1 7 1000 1000 1000 30000] (init [])))
          = Some context_r1"
    by (simp add: scenario_defs relay_defs)
  have n: "next_timer (fst (run [Invoke payload_x1 context_r1 7 1000 1000 1000 30000] (init []))) = 0"
      "armed (fst (run [Invoke payload_x1 context_r1 7 1000 1000 1000 30000] (init []))) = []"
    by (simp_all add: scenario_defs relay_defs)
  have h2: "0 \<in> set (armed (fst (run scenario_A (init []))))
      \<and> ws (fst (run scenario_A (init []))) = WsObject 0"
    by (simp add: scenario_defs relay_defs)
  note inst = keep_alive_single[of
      "fst (run [Invoke payload_x1 context_r1 7 1000 1000 1000 30000] (init []))" 0 context_r1
      29990 0 "fst (run scenario_A (init []))" 0]
  from inst h1 n
  have a: "\<exists>s'. sendMessage 29990 (fst (run [Invoke payload_x1 context_r1 7 1000 1000 1000 30000] (init [])))
              = (s', None)
        \<and> keepAliveTimer s' = Some 0 \<and> armed s' = [0]"
    by metis
  from inst h2
  have b: "\<exists>s3. step (TimerFires 0) (fst (run scenario_A (init []))) = (s3, None)
         \<and> trace s3 = trace (fst (run scenario_A (init []))) @ [Send 0 KeepAlive]
         \<and> armed s3 = removeAll 0 (armed (fst (run scenario_A (init []))))
         \<and> step (TimerFires 0) s3 = (s3, None)"
    by blast
  from h1 h2 a b show ?thesis by blast
qed

section \<open>Properties of the codec\<close>

lemma destroyCircular_unfold:
  "map_of h a = Some fo \<Longrightarrow>
   destroyCircular h a seen to_opt fe =
     attach_common fo fe
       (copy_entries h (seen @ [a]) fe (own fo) (new_target to_opt (isArray fo)))"
proof -
  assume m: "map_of h a = Some fo"
  have eq: "(\<lambda>(key, v, enumerable) t.
                     if \<not> enumerable then t
                     else (case v of
                             VFunction \<Rightarrow> t
                           | VObject b \<Rightarrow>
                               if b \<notin> set (seen @ [a])
                               then set_prop t key
                                      (TObj (destroyCircular h b (seen @ [a]) None fe))
                               else set_prop t key (TStr ''[Circular]'')
                           | _ \<Rightarrow> set_prop t key (prim_of v)))
        = (\<lambda>(key, v, enumerable) t.
             if \<not> enumerable then t
             else (case entry_value h (seen @ [a]) fe v of None \<Rightarrow> t | Some u \<Rightarrow> set_prop t key u))"
    by (intro ext) (auto simp: entry_value_def split: jsval.split)
  show ?thesis
    by (subst destroyCircular.simps) (simp add: m copy_entries_def eq)
qed

lemma t_kind_set_prop [simp]: "t_kind (set_prop t k v) = t_kind t"
  by (cases t) simp

lemma t_kind_define_prop [simp]: "t_kind (define_prop t k v e) = t_kind t"
  by (cases t) simp

lemma t_kind_copy_entries [simp]: "t_kind (copy_entries h path fe ps t) = t_kind t"
  by (induction ps arbitrary: t) (auto simp: copy_entries_def split: option.split)

lemma t_kind_attach_common [simp]: "t_kind (attach_common fo fe t) = t_kind t"
  by (simp add: attach_common_def commonProperties_def split: option.split)

lemma own_lookup_define_same [simp]: "own_lookup (define_own ps k v e) k = Some v"
  by (induction ps) auto

lemma own_lookup_define_other [simp]:
  "k' \<noteq> k \<Longrightarrow> own_lookup (define_own ps k v e) k' = own_lookup ps k'"
  by (induction ps) auto

lemma own_lookup_assign_same [simp]: "own_lookup (assign_own ps k v) k = Some v"
  by (induction ps) auto

lemma own_lookup_assign_other [simp]:
  "k' \<noteq> k \<Longrightarrow> own_lookup (assign_own ps k v) k' = own_lookup ps k'"
  by (induction ps) auto

lemma t_own_define_prop [simp]: "t_own (define_prop t k v e) = define_own (t_own t) k v e"
  by (cases t) simp

lemma t_own_set_prop [simp]: "t_own (set_prop t k v) = assign_own (t_own t) k v"
  by (cases t) simp

lemma attach_common_lookup:
  "own_lookup (t_own (attach_common fo fe t)) p =
     (if p \<in> {''name'', ''message'', ''stack'', ''code''}
      then (case string_prop fo p of Some s \<Rightarrow> Some (TStr s) | None \<Rightarrow> own_lookup (t_own t) p)
      else own_lookup (t_own t) p)"
  by (simp add: attach_common_def commonProperties_def split: option.split)

text \<open>Lists of properties.\<close>

lemma own_lookup_entry_of: "own_lookup ps k = map_option fst (entry_of ps k)"
  by (induction ps) auto

lemma entry_of_mem: "entry_of ps k = Some (v, e) \<Longrightarrow> (k, v, e) \<in> set ps"
  by (induction ps) (auto split: if_splits)

lemma entry_of_distinct:
  "distinct (map fst ps) \<Longrightarrow> (k, v, e) \<in> set ps \<Longrightarrow> entry_of ps k = Some (v, e)"
  by (induction ps) (auto simp: rev_image_eqI)

lemma keys_assign:
  "map fst (assign_own ps k v) = (if k \<in> set (map fst ps) then map fst ps else map fst ps @ [k])"
  by (induction ps) (auto simp: rev_image_eqI)

lemma distinct_assign: "distinct (map fst ps) \<Longrightarrow> distinct (map fst (assign_own ps k v))"
  by (simp add: keys_assign)

lemma keys_define:
  "map fst (define_own ps k v e) = (if k \<in> set (map fst ps) then map fst ps else map fst ps @ [k])"
  by (induction ps) (auto simp: rev_image_eqI)

lemma distinct_define: "distinct (map fst ps) \<Longrightarrow> distinct (map fst (define_own ps k v e))"
  by (simp add: keys_define)

lemma entry_of_assign_other [simp]:
  "k' \<noteq> k \<Longrightarrow> entry_of (assign_own ps k v) k' = entry_of ps k'"
  by (induction ps) auto

lemma entry_of_define_other [simp]:
  "k' \<noteq> k \<Longrightarrow> entry_of (define_own ps k v e) k' = entry_of ps k'"
  by (induction ps) auto

lemma entry_of_assign_same:
  "entry_of (assign_own ps k v) k =
     Some (v, case entry_of ps k of Some (u, e) \<Rightarrow> e | None \<Rightarrow> True)"
  by (induction ps) auto

text \<open>The first loop of \<^verbatim>\<open>destroyCircular\<close>.\<close>

lemma copy_entries_Nil [simp]: "copy_entries h path fe [] t = t"
  by (simp add: copy_entries_def)

lemma copy_entries_Cons:
  "copy_entries h path fe ((k, v, e) # ps) t =
     copy_entries h path fe ps
       (if \<not> e then t
        else (case entry_value h path fe v of None \<Rightarrow> t | Some u \<Rightarrow> set_prop t k u))"
  by (simp add: copy_entries_def)

lemma copy_entries_distinct:
  "distinct (map fst (t_own t)) \<Longrightarrow> distinct (map fst (t_own (copy_entries h path fe ps t)))"
  by (induction ps arbitrary: t) (auto simp: copy_entries_Cons distinct_assign split: option.split)

lemma copy_entries_other:
  "k \<notin> set (map fst ps) \<Longrightarrow>
   entry_of (t_own (copy_entries h path fe ps t)) k = entry_of (t_own t) k"
  by (induction ps arbitrary: t) (auto simp: copy_entries_Cons split: option.split)

lemma copy_entries_entry:
  assumes "distinct (map fst ps)" and "(k, v, True) \<in> set ps"
    and "entry_value h path fe v = Some u"
  shows "entry_of (t_own (copy_entries h path fe ps t)) k =
           Some (u, case entry_of (t_own t) k of Some (u', e) \<Rightarrow> e | None \<Rightarrow> True)"
  using assms
proof (induction ps arbitrary: t)
  case Nil
  then show ?case by simp
next
  case (Cons x ps)
  obtain k' v' e' where x: "x = (k', v', e')" by (cases x)
  show ?case
  proof (cases "k' = k")
    case True
    with Cons.prems x have "v' = v" "e' = True" "k \<notin> set (map fst ps)"
      by (auto simp: rev_image_eqI)
    with True x Cons.prems(3) show ?thesis
      by (simp add: copy_entries_Cons copy_entries_other entry_of_assign_same)
  next
    case False
    with Cons.prems x have "(k, v, True) \<in> set ps" "distinct (map fst ps)" by auto
    from Cons.IH[OF this(2) this(1) Cons.prems(3)] False x show ?thesis
      by (auto simp: copy_entries_Cons split: option.split)
  qed
qed

text \<open>The second loop of \<^verbatim>\<open>destroyCircular\<close>.\<close>

lemma attach_common_distinct:
  "distinct (map fst (t_own t)) \<Longrightarrow> distinct (map fst (t_own (attach_common fo fe t)))"
  by (simp add: attach_common_def commonProperties_def distinct_define split: option.split)

lemma attach_step:
  "string_prop fo k = None \<Longrightarrow>
   entry_of (t_own (case string_prop fo p of Some s \<Rightarrow> define_prop t p (TStr s) e | None \<Rightarrow> t)) k
     = entry_of (t_own t) k"
  by (cases "p = k") (auto split: option.split)

lemma attach_common_entry:
  "string_prop fo k = None \<Longrightarrow>
   entry_of (t_own (attach_common fo fe t)) k = entry_of (t_own t) k"
  by (simp add: attach_common_def commonProperties_def attach_step)

lemma string_prop_alt:
  "string_prop fo p =
     (case own_lookup (own fo) p of
        Some v \<Rightarrow> str_of_jsval v
      | None \<Rightarrow> (case map_of (inherited fo) p of Some r \<Rightarrow> r | None \<Rightarrow> None))"
  by (auto simp: string_prop_def split: option.split jsval.split)

lemma string_prop_own:
  "own_lookup (own fo) p = Some v \<Longrightarrow> string_prop fo p = str_of_jsval v"
  by (simp add: string_prop_alt)

lemma t_own_new_target_None [simp]: "t_own (new_target None arr) = []"
  by (simp add: new_target_def)

lemma t_kind_new_target_None [simp]:
  "t_kind (new_target None arr) = (if arr then ArrayK else PlainK)"
  by (simp add: new_target_def)

lemma plain_keys_distinct:
  "plain_keys h \<Longrightarrow> map_of h a = Some fo \<Longrightarrow> distinct (map fst (own fo))"
  by (auto simp: plain_keys_def list_all_iff dest!: map_of_SomeD)

text \<open>The encoding side: a back-reference on the path becomes the marker.\<close>

lemma encode_marks_back_refs:
  assumes pk: "plain_keys h"
  shows "back_ref h path a ks \<Longrightarrow> tleaf (destroyCircular h a path None fe) ks ''[Circular]''"
proof (induction ks arbitrary: a path)
  case Nil
  then show ?case by simp
next
  case (Cons k ks)
  from Cons.prems obtain fo where m: "map_of h a = Some fo"
    by (auto split: option.splits)
  from Cons.prems m
  have br: "case entry_of (own fo) k of
              Some (VObject b, True) \<Rightarrow>
                if b \<in> set (path @ [a]) then ks = [] else back_ref h (path @ [a]) b ks
            | _ \<Rightarrow> False"
    by simp
  then obtain v e where en0: "entry_of (own fo) k = Some (v, e)"
    by (cases "entry_of (own fo) k") auto
  with br obtain b where vb: "v = VObject b" by (cases v) auto
  with br en0 have et: "e = True" by (cases e) auto
  from en0 vb et have en: "entry_of (own fo) k = Some (VObject b, True)" by simp
  from br en have nx: "if b \<in> set (path @ [a]) then ks = [] else back_ref h (path @ [a]) b ks"
    by simp
  define t1 where "t1 = copy_entries h (path @ [a]) fe (own fo) (new_target None (isArray fo))"
  define u where "u = (if b \<notin> set (path @ [a])
                       then TObj (destroyCircular h b (path @ [a]) None fe)
                       else TStr ''[Circular]'')"
  have enc: "destroyCircular h a path None fe = attach_common fo fe t1"
    by (simp add: destroyCircular_unfold[OF m] t1_def)
  have d: "distinct (map fst (t_own (attach_common fo fe t1)))"
    by (simp add: t1_def attach_common_distinct copy_entries_distinct)
  have ev: "entry_value h (path @ [a]) fe (VObject b) = Some u"
    by (simp add: entry_value_def u_def)
  have "entry_of (t_own t1) k = Some (u, True)"
    using copy_entries_entry[OF plain_keys_distinct[OF pk m] entry_of_mem[OF en] ev,
        of "new_target None (isArray fo)"]
    by (simp add: t1_def)
  moreover have "string_prop fo k = None"
    using en by (simp add: string_prop_own own_lookup_entry_of)
  ultimately have e1: "entry_of (t_own (attach_common fo fe t1)) k = Some (u, True)"
    by (simp add: attach_common_entry)
  show ?case
  proof (cases "b \<in> set (path @ [a])")
    case True
    with nx have "ks = []" by simp
    with True d e1 show ?thesis by (simp add: enc u_def)
  next
    case False
    with nx have "back_ref h (path @ [a]) b ks" by simp
    from Cons.IH[OF this] False d e1 show ?thesis by (simp add: enc u_def)
  qed
qed

text \<open>A fresh value laid out as a store holds every subtree at its path.\<close>

lemma heap_of_keys:
  "(q, fo) \<in> set (heap_of p t) \<Longrightarrow> prefix p q"
  "(q, fo) \<in> set (heap_of_props p i ps) \<Longrightarrow> \<exists>j\<ge>i. prefix (p @ [j]) q"
proof (induction p t and p i ps arbitrary: q fo and q fo rule: heap_of_heap_of_props.induct)
  case (1 p kd ps)
  then show ?case by (auto dest!: "1.IH" elim: prefix_order.trans[rotated])
next
  case (2 p i)
  then show ?case by simp
next
  case (3 p i k v e ps)
  from "3.prems" consider
    (a) t where "v = TObj t" "(q, fo) \<in> set (heap_of (p @ [i]) t)"
    | (b) "(q, fo) \<in> set (heap_of_props p (Suc i) ps)"
    by (auto split: tval.splits)
  then show ?case
  proof cases
    case a
    from "3.IH"(1)[OF a] show ?thesis by auto
  next
    case b
    from "3.IH"(2)[OF b] show ?thesis by (auto intro: Suc_leD)
  qed
qed

lemma prefix_snoc_same: "prefix (p @ [a]) x \<Longrightarrow> prefix (p @ [b]) x \<Longrightarrow> a = b"
  by (auto simp: prefix_def)

lemma map_of_absent: "k \<notin> fst ` set xs \<Longrightarrow> map_of xs k = None"
  by (simp add: map_of_eq_None_iff)

lemma heap_of_props_child:
  "j < length ps \<Longrightarrow> fst (snd (ps ! j)) = TObj t' \<Longrightarrow>
   map_of (heap_of_props p i ps) (p @ [i + j] @ q) = map_of (heap_of (p @ [i + j]) t') (p @ [i + j] @ q)"
proof (induction ps arbitrary: i j)
  case Nil
  then show ?case by simp
next
  case (Cons x ps)
  obtain k v e where x: "x = (k, v, e)" by (cases x)
  let ?A = "case v of TObj t \<Rightarrow> heap_of (p @ [i]) t | _ \<Rightarrow> []"
  let ?B = "heap_of_props p (Suc i) ps"
  show ?case
  proof (cases j)
    case 0
    with Cons.prems x have v: "v = TObj t'" by simp
    have "p @ [i] @ q \<notin> fst ` set ?B"
    proof
      assume "p @ [i] @ q \<in> fst ` set ?B"
      then obtain fo where "(p @ [i] @ q, fo) \<in> set ?B" by auto
      from heap_of_keys(2)[OF this] obtain j' where "Suc i \<le> j'" "prefix (p @ [j']) (p @ [i] @ q)"
        by auto
      moreover have "prefix (p @ [i]) (p @ [i] @ q)" by simp
      ultimately show False using prefix_snoc_same by fastforce
    qed
    then have "map_of ?B (p @ [i] @ q) = None" by (rule map_of_absent)
    with 0 x v show ?thesis by (simp add: map_add_def split: option.split)
  next
    case (Suc j')
    have "p @ [i + j] @ q \<notin> fst ` set ?A"
    proof
      assume "p @ [i + j] @ q \<in> fst ` set ?A"
      then obtain fo t where "v = TObj t" "(p @ [i + j] @ q, fo) \<in> set (heap_of (p @ [i]) t)"
        by (auto split: tval.splits)
      from heap_of_keys(1)[OF this(2)] have "prefix (p @ [i]) (p @ [i + j] @ q)" .
      moreover have "prefix (p @ [i + j]) (p @ [i + j] @ q)" by simp
      ultimately have "i = i + j" using prefix_snoc_same by fastforce
      with Suc show False by simp
    qed
    then have "map_of ?A (p @ [i + j] @ q) = None" by (rule map_of_absent)
    moreover from Cons.prems Suc have "j' < length ps" "fst (snd (ps ! j')) = TObj t'" by simp_all
    from Cons.IH[OF this, of "Suc i"] Suc
    have "map_of ?B (p @ [i + j] @ q) = map_of (heap_of (p @ [i + j]) t') (p @ [i + j] @ q)"
      by simp
    ultimately show ?thesis using x by (simp add: map_add_def)
  qed
qed

lemma heap_of_tsub:
  "tsub t q = Some t' \<Longrightarrow> map_of (heap_of p t) (p @ q) = Some (jobj_at (p @ q) t')"
proof (induction q arbitrary: p t)
  case Nil
  then have "t = t'" by simp
  then show ?case by (cases t') simp
next
  case (Cons i q)
  obtain kd ps where t: "t = TObject kd ps" by (cases t)
  from Cons.prems t obtain t1 where
    i: "i < length ps" "fst (snd (ps ! i)) = TObj t1" and sub: "tsub t1 q = Some t'"
    by (auto split: if_splits tval.splits)
  have "map_of (heap_of p t) (p @ i # q) = map_of (heap_of_props p 0 ps) (p @ [0 + i] @ q)"
    by (simp add: t)
  also have "\<dots> = map_of (heap_of (p @ [0 + i]) t1) (p @ [0 + i] @ q)"
    by (rule heap_of_props_child[OF i])
  also have "\<dots> = Some (jobj_at ((p @ [i]) @ q) t')"
    using Cons.IH[OF sub, of "p @ [i]"] by simp
  finally show ?case by simp
qed

lemma tsub_snoc:
  "tsub T p = Some t \<Longrightarrow> i < length (t_own t) \<Longrightarrow> fst (snd (t_own t ! i)) = TObj t' \<Longrightarrow>
   tsub T (p @ [i]) = Some t'"
  by (induction p arbitrary: T) (auto split: if_splits tval.splits)

lemma str_of_jsval_of [simp]: "str_of_jsval (jsval_of q v) = str_of_tval v"
  by (cases v) simp_all

lemma keys_own_at [simp]: "map fst (own_at p i ps) = map fst ps"
  by (induction ps arbitrary: i) auto

lemma own_lookup_own_at:
  "map_option str_of_jsval (own_lookup (own_at p i ps) k) = map_option str_of_tval (own_lookup ps k)"
  by (induction ps arbitrary: i) auto

lemma string_prop_jobj_at:
  "string_prop (jobj_at p t) k =
     (case own_lookup (t_own t) k of
        Some v \<Rightarrow> str_of_tval v
      | None \<Rightarrow> (case map_of (builtin_inherited (t_kind t)) k of Some r \<Rightarrow> r | None \<Rightarrow> None))"
  using own_lookup_own_at[of p 0 "t_own t" k]
  by (auto simp: string_prop_alt jobj_at_def split: option.splits)

lemma own_at_mem_str:
  "(k, TStr s, e) \<in> set ps \<Longrightarrow> (k, VStr s, e) \<in> set (own_at p i ps)"
  by (induction ps arbitrary: i) auto

lemma own_at_mem_obj:
  "(k, TObj t', e) \<in> set ps \<Longrightarrow>
   \<exists>j<length ps. ps ! j = (k, TObj t', e) \<and> (k, VObject (p @ [i + j]), e) \<in> set (own_at p i ps)"
proof (induction ps arbitrary: i)
  case Nil
  then show ?case by simp
next
  case (Cons x ps)
  show ?case
  proof (cases "x = (k, TObj t', e)")
    case True
    then have "(x # ps) ! 0 = (k, TObj t', e) \<and> (k, VObject (p @ [i + 0]), e) \<in> set (own_at p i (x # ps))"
      by simp
    then show ?thesis by blast
  next
    case False
    with Cons.prems have "(k, TObj t', e) \<in> set ps" by simp
    from Cons.IH[OF this, of "Suc i"] obtain j where
      j: "j < length ps" "ps ! j = (k, TObj t', e)"
         "(k, VObject (p @ [Suc i + j]), e) \<in> set (own_at p (Suc i) ps)" by blast
    obtain k0 v0 e0 where x: "x = (k0, v0, e0)" by (cases x)
    from j x have "Suc j < length (x # ps) \<and> (x # ps) ! Suc j = (k, TObj t', e)
        \<and> (k, VObject (p @ [i + Suc j]), e) \<in> set (own_at p i (x # ps))"
      by simp
    then show ?thesis by blast
  qed
qed

text \<open>The decoding side: a string reached through enumerable properties is copied.\<close>

lemma decode_keeps_leaf:
  "tsub T p = Some t \<Longrightarrow> tleaf t ks s \<Longrightarrow> \<forall>q\<in>set seen. length q \<le> length p \<Longrightarrow>
   tfollow (TObj (destroyCircular (heap_of [] T) p seen to_opt False)) ks = TStr s"
proof (induction ks arbitrary: p t seen to_opt)
  case Nil
  then show ?case by simp
next
  case (Cons k ks)
  let ?H = "heap_of [] T"
  define t0 where "t0 = new_target to_opt (isArray (jobj_at p t))"
  define t1 where "t1 = copy_entries ?H (seen @ [p]) False (own_at p 0 (t_own t)) t0"
  from heap_of_tsub[OF Cons.prems(1), of "[]"]
  have m: "map_of ?H p = Some (jobj_at p t)" by simp
  have r: "destroyCircular ?H p seen to_opt False = attach_common (jobj_at p t) False t1"
    by (simp add: destroyCircular_unfold[OF m] t1_def t0_def jobj_at_def)
  from Cons.prems(2) have d: "distinct (map fst (t_own t))" by simp
  then have d': "distinct (map fst (own_at p 0 (t_own t)))" by simp
  from Cons.prems(2)
  have lf: "case entry_of (t_own t) k of
              Some (TStr s', True) \<Rightarrow> ks = [] \<and> s' = s
            | Some (TObj t', True) \<Rightarrow> tleaf t' ks s
            | _ \<Rightarrow> False"
    by simp
  then obtain v e where en0: "entry_of (t_own t) k = Some (v, e)"
    by (cases "entry_of (t_own t) k") auto
  with lf have et: "e = True" by (cases v; cases e) auto
  from en0 et have mem: "(k, v, True) \<in> set (t_own t)" by (auto dest: entry_of_mem)
  from en0 have lk: "own_lookup (t_own t) k = Some v" by (simp add: own_lookup_entry_of)
  show ?case
  proof (cases v)
    case (TStr s')
    with lf en0 et have ks: "ks = []" and s': "s' = s" by simp_all
    from mem TStr s' have "(k, VStr s, True) \<in> set (own_at p 0 (t_own t))"
      by (auto intro: own_at_mem_str)
    from copy_entries_entry[OF d' this, of ?H "seen @ [p]" False "TStr s" t0]
    have "own_lookup (t_own t1) k = Some (TStr s)"
      by (simp add: entry_value_def t1_def own_lookup_entry_of)
    moreover have "string_prop (jobj_at p t) k = Some s"
      using lk TStr s' by (simp add: string_prop_jobj_at)
    ultimately have "own_lookup (t_own (attach_common (jobj_at p t) False t1)) k = Some (TStr s)"
      by (simp add: attach_common_lookup)
    with ks show ?thesis by (simp add: r)
  next
    case (TObj t')
    with lf en0 et have lf': "tleaf t' ks s" by simp
    from own_at_mem_obj[of k t' True "t_own t" p 0] mem TObj obtain j where
      j: "j < length (t_own t)" "t_own t ! j = (k, TObj t', True)"
         "(k, VObject (p @ [j]), True) \<in> set (own_at p 0 (t_own t))"
      by auto
    from Cons.prems(3) have fresh: "p @ [j] \<notin> set (seen @ [p])" by auto
    define u where "u = TObj (destroyCircular ?H (p @ [j]) (seen @ [p]) None False)"
    from fresh have "entry_value ?H (seen @ [p]) False (VObject (p @ [j])) = Some u"
      by (simp add: entry_value_def u_def)
    from copy_entries_entry[OF d' j(3) this, of t0]
    have "own_lookup (t_own t1) k = Some u"
      by (simp add: t1_def own_lookup_entry_of)
    moreover have "string_prop (jobj_at p t) k = None"
      using lk TObj by (simp add: string_prop_jobj_at)
    ultimately have l: "own_lookup (t_own (attach_common (jobj_at p t) False t1)) k = Some u"
      by (simp add: attach_common_lookup)
    from j have sub: "tsub T (p @ [j]) = Some t'"
      by (intro tsub_snoc[OF Cons.prems(1)]) simp_all
    from Cons.prems(3) have len: "\<forall>q\<in>set (seen @ [p]). length q \<le> length (p @ [j])"
      by auto
    have "tfollow u ks = TStr s"
      unfolding u_def by (rule Cons.IH[OF sub lf' len])
    with l show ?thesis by (simp add: r)
  next
    case TUndefined
    with lf en0 show ?thesis by simp
  next
    case TNull
    with lf en0 show ?thesis by simp
  next
    case (TBool x)
    with lf en0 show ?thesis by simp
  next
    case (TNum x)
    with lf en0 show ?thesis by simp
  qed
qed

text \<open>
  C9. \<open>destroyCircular\<close> is defined by the recursion of the code, and its termination is
  proved for every store, cyclic or not: each call puts one more object on the path, and
  an object on the path is never entered again. For every object \<open>e\<close> that is not an
  array, \<^verbatim>\<open>decode(encode(e))\<close> is a new error object whose name, message, stack and code are
  those of \<open>e\<close> wherever \<open>e\<close> has a string there, and in which every back-reference to an
  ancestor on the current path, at any depth, is the string \<^verbatim>\<open>"[Circular]"\<close>.
\<close>

theorem decode_encode_roundtrip:
  assumes "plain_keys h" and "map_of h e = Some fo" and "\<not> isArray fo"
  shows "\<exists>r. decode_encode stk fe h e = Rebuilt r
           \<and> t_kind r = ErrorK
           \<and> (\<forall>p s. p \<in> {''name'', ''message'', ''stack'', ''code''} \<longrightarrow>
                  string_prop fo p = Some s \<longrightarrow> tget r p = TStr s)
           \<and> (\<forall>ks. back_ref h [] e ks \<longrightarrow> tfollow (TObj r) ks = TStr ''[Circular]'')"
proof -
  define enc where "enc = encode fe h e"
  define r where "r = destroyCircular (heap_of [] enc) [] [] (Some (newError stk)) False"
  have enc_eq: "enc = attach_common fo fe
                   (copy_entries h [e] fe (own fo) (new_target None (isArray fo)))"
    using destroyCircular_unfold[OF assms(2), of "[]" None fe] by (simp add: enc_def encode_def)
  have kind: "t_kind enc = PlainK"
    using assms(3) by (simp add: enc_eq)
  have top: "map_of (heap_of [] enc) [] = Some (jobj_at [] enc)"
    using heap_of_tsub[of enc "[]" enc "[]"] by simp
  have dec: "decode_encode stk fe h e = Rebuilt r"
    unfolding decode_encode_def deserializeError_def r_def enc_def[symmetric]
    by (simp add: top jobj_at_def kind)
  have r_eq: "r = attach_common (jobj_at [] enc) False
                    (copy_entries (heap_of [] enc) [[]] False (own (jobj_at [] enc))
                       (new_target (Some (newError stk)) (isArray (jobj_at [] enc))))"
    using destroyCircular_unfold[OF top, of "[]" "Some (newError stk)" False] by (simp add: r_def)
  have rk: "t_kind r = ErrorK"
    by (simp add: r_eq new_target_def newError_def)
  have fields: "tget r p = TStr s"
    if p: "p \<in> {''name'', ''message'', ''stack'', ''code''}" and s: "string_prop fo p = Some s"
    for p s
  proof -
    from p s have "own_lookup (t_own enc) p = Some (TStr s)"
      by (simp add: enc_eq attach_common_lookup)
    then have "string_prop (jobj_at [] enc) p = Some s"
      by (simp add: string_prop_jobj_at)
    with p have "own_lookup (t_own r) p = Some (TStr s)"
      by (simp add: r_eq attach_common_lookup)
    then show ?thesis by (simp add: tget_def)
  qed
  have circ: "tfollow (TObj r) ks = TStr ''[Circular]''" if "back_ref h [] e ks" for ks
  proof -
    from encode_marks_back_refs[OF assms(1) that, of fe]
    have "tleaf enc ks ''[Circular]''" by (simp add: enc_def encode_def)
    from decode_keeps_leaf[of enc "[]" enc ks "''[Circular]''" "[]" "Some (newError stk)", OF _ this]
    show ?thesis by (simp add: r_def)
  qed
  from dec rk fields circ show ?thesis by blast
qed

text \<open>The cyclic error, encoded and decoded.\<close>

lemma cyclic_error_encoded:
  "encode False cyclic_error 0 =
     TObject PlainK
       [(''code'', TStr ''E1'', True),
        (''self'', TStr ''[Circular]'', True),
        (''inner'', TObj (TObject PlainK
            [(''up'', TStr ''[Circular]'', True), (''me'', TStr ''[Circular]'', True),
             (''n'', TNum 3, True)]), True),
        (''name'', TStr ''Error'', False),
        (''message'', TStr ''boom'', False),
        (''stack'', TStr ''Error: boom at handler'', False)]"
  by (simp add: encode_def cyclic_error_def destroyCircular.simps new_target_def
      attach_common_def commonProperties_def string_prop_def)

lemma cyclic_error_decoded:
  "decode_encode ''at decode'' False cyclic_error 0 = Rebuilt
     (TObject ErrorK
       [(''stack'', TStr ''Error: boom at handler'', False),
        (''code'', TStr ''E1'', True),
        (''self'', TStr ''[Circular]'', True),
        (''inner'', TObj (TObject PlainK
            [(''up'', TStr ''[Circular]'', True), (''me'', TStr ''[Circular]'', True),
             (''n'', TNum 3, True)]), True),
        (''name'', TStr ''Error'', False),
        (''message'', TStr ''boom'', False)])"
  by (simp add: decode_encode_def cyclic_error_encoded deserializeError_def jobj_at_def
      newError_def destroyCircular.simps new_target_def attach_common_def commonProperties_def
      string_prop_def)

theorem decode_encode_roundtrip_witness:
  "plain_keys cyclic_error
   \<and> map_option isArray (map_of cyclic_error 0) = Some False
   \<and> back_ref cyclic_error [] 0 [''self'']
   \<and> back_ref cyclic_error [] 0 [''inner'', ''up'']
   \<and> (\<exists>r. decode_encode ''at decode'' False cyclic_error 0 = Rebuilt r
         \<and> t_kind r = ErrorK
         \<and> tget r ''name'' = TStr ''Error''
         \<and> tget r ''message'' = TStr ''boom''
         \<and> tget r ''code'' = TStr ''E1''
         \<and> tfollow (TObj r) [''self''] = TStr ''[Circular]''
         \<and> tfollow (TObj r) [''inner'', ''up''] = TStr ''[Circular]'')"
proof -
  define fo where "fo = \<lparr> isArray = False, isError = True,
            own = [(''stack'', VStr ''Error: boom at handler'', False),
                   (''message'', VStr ''boom'', False),
                   (''code'', VStr ''E1'', True),
                   (''self'', VObject (0::nat), True),
                   (''inner'', VObject 1, True),
                   (''retry'', VFunction, True)],
            inherited = [(''name'', Some ''Error''), (''message'', Some '''')] \<rparr>"
  have h1: "plain_keys cyclic_error"
    by (simp add: plain_keys_def cyclic_error_def)
  have h2: "map_of cyclic_error 0 = Some fo"
    by (simp add: cyclic_error_def fo_def)
  have h3: "\<not> isArray fo"
    by (simp add: fo_def)
  have b1: "back_ref cyclic_error [] 0 [''self'']"
    by (simp add: cyclic_error_def)
  have b2: "back_ref cyclic_error [] 0 [''inner'', ''up'']"
    by (simp add: cyclic_error_def)
  have s: "string_prop fo ''name'' = Some ''Error''" "string_prop fo ''message'' = Some ''boom''"
    "string_prop fo ''code'' = Some ''E1''"
    by (simp_all add: string_prop_def fo_def)
  from decode_encode_roundtrip[OF h1 h2 h3, of "''at decode''" False] obtain r where
    r: "decode_encode ''at decode'' False cyclic_error 0 = Rebuilt r" "t_kind r = ErrorK"
      "\<And>p s. p \<in> {''name'', ''message'', ''stack'', ''code''} \<Longrightarrow> string_prop fo p = Some s
          \<Longrightarrow> tget r p = TStr s"
      "\<And>ks. back_ref cyclic_error [] 0 ks \<Longrightarrow> tfollow (TObj r) ks = TStr ''[Circular]''"
    by blast
  from r(3)[OF _ s(1)] r(3)[OF _ s(2)] r(3)[OF _ s(3)]
  have f: "tget r ''name'' = TStr ''Error''" "tget r ''message'' = TStr ''boom''"
    "tget r ''code'' = TStr ''E1''"
    by simp_all
  from r(4)[OF b1] r(4)[OF b2] r(1) r(2) f
  have "\<exists>r. decode_encode ''at decode'' False cyclic_error 0 = Rebuilt r
         \<and> t_kind r = ErrorK
         \<and> tget r ''name'' = TStr ''Error''
         \<and> tget r ''message'' = TStr ''boom''
         \<and> tget r ''code'' = TStr ''E1''
         \<and> tfollow (TObj r) [''self''] = TStr ''[Circular]''
         \<and> tfollow (TObj r) [''inner'', ''up''] = TStr ''[Circular]''"
    by blast
  moreover from h2 h3 have "map_option isArray (map_of cyclic_error 0) = Some False" by simp
  ultimately show ?thesis using h1 b1 b2 by blast
qed

end
